theory Spec2Isabelle
  imports Main "HOL-Library.Sublist" "HOL-Library.Word"
begin

unbundle bit_operations_syntax

section \<open>LunaTV storage layer: relational store, retry policy, hybrid cache\<close>

text \<open>
  The development embeds \<^verbatim>\<open>src/lib/postgres.db.ts\<close> (class \<^verbatim>\<open>PostgresStorage\<close> and the
  module function \<^verbatim>\<open>withRetry\<close>) and \<^verbatim>\<open>src/lib/hybrid.db.ts\<close> (classes
  \<^verbatim>\<open>RedisStorage\<close> and \<^verbatim>\<open>HybridStorage\<close>). The methods of the storage
  contract carry the prefix \<open>pg_\<close> for \<^verbatim>\<open>PostgresStorage\<close> and \<open>hybrid_\<close> for
  \<^verbatim>\<open>HybridStorage\<close>, and the methods of \<^verbatim>\<open>RedisStorage\<close> the prefix \<open>redis_\<close>, since
  the classes share method names; the private helpers keep their names.

  An \<^verbatim>\<open>async\<close> method is a function from the store's state to a result and the new
  state; a rejected promise is \<open>Inl\<close> of an error. What lies outside the program (a
  connection that drops, the database clock, the random salt) is an explicit input.

  A string is the list of the bytes of its UTF-8 encoding, which for ASCII text is the
  list of its characters.
\<close>

subsection \<open>Errors\<close>

datatype error =
    ConnectionError      \<comment> \<open>the pool, a query or the cache backend is unreachable\<close>
  | RetriesExhausted     \<comment> \<open>\<^verbatim>\<open>new Error('...')\<close> thrown after the loop of \<^verbatim>\<open>withRetry\<close>\<close>
  | InvalidByteSequence  \<comment> \<open>SQLSTATE 22021: a text parameter holds the character NUL\<close>
  | UntranslatableCharacter  \<comment> \<open>SQLSTATE 22P05: a \<^verbatim>\<open>JSONB\<close> document holds the escape of NUL\<close>
  | StringTooLong        \<comment> \<open>value too long for type character varying(n)\<close>
  | NotNullViolation
  | UniqueViolation
  | ForeignKeyViolation
  | TypeError            \<comment> \<open>property read on \<^verbatim>\<open>undefined\<close>\<close>
  | InvalidArgument      \<comment> \<open>argument validation of \<^verbatim>\<open>crypto.pbkdf2\<close>\<close>
  | DerivingBitsFailed   \<comment> \<open>\<^verbatim>\<open>crypto.pbkdf2\<close> asked for a key of length 0\<close>

subsection \<open>Retry policy: \<^verbatim>\<open>withRetry\<close>\<close>

text \<open>
  What the wrapper does besides returning: it invokes the operation (attempt \<open>i\<close>, from 0)
  and it sleeps (\<^verbatim>\<open>setTimeout\<close> with the given number of milliseconds).
\<close>

datatype event = Attempt nat | Wait nat

text \<open>
  \<^verbatim>\<open>for (let i = 0; i < maxRetries; i++) { try { return await operation(); } catch (error) {
  if (i === maxRetries - 1) throw error; await sleep(delay * Math.pow(2, i)); } }
  throw new Error(...)\<close>.
  The operation acts on a state \<open>'s\<close>; the loop variable is the argument \<open>i\<close>. The test
  \<open>i = maxRetries - 1\<close> is only reached under \<open>i < maxRetries\<close>, where the subtraction
  on \<open>nat\<close> is exact.
\<close>

function withRetry_loop ::
  "('s \<Rightarrow> (error + 'a) \<times> 's) \<Rightarrow> nat \<Rightarrow> nat \<Rightarrow> nat \<Rightarrow> 's \<Rightarrow> (error + 'a) \<times> 's \<times> event list"
where
  "withRetry_loop operation maxRetries delay i s =
     (if i < maxRetries then
        (case operation s of
           (Inr v, s') \<Rightarrow> (Inr v, s', [Attempt i])
         | (Inl err, s') \<Rightarrow>
             if i = maxRetries - 1 then (Inl err, s', [Attempt i])
             else (case withRetry_loop operation maxRetries delay (Suc i) s' of
                     (r, s'', evs) \<Rightarrow> (r, s'', Attempt i # Wait (delay * 2 ^ i) # evs)))
      else (Inl RetriesExhausted, s, []))"
  by pat_completeness auto
termination
  by (relation "measure (\<lambda>(operation, maxRetries, delay, i, s). maxRetries - i)") auto

declare withRetry_loop.simps [simp del]

definition withRetry ::
  "('s \<Rightarrow> (error + 'a) \<times> 's) \<Rightarrow> nat \<Rightarrow> nat \<Rightarrow> 's \<Rightarrow> (error + 'a) \<times> 's \<times> event list"
where
  "withRetry operation maxRetries delay s = withRetry_loop operation maxRetries delay 0 s"

text \<open>The state in which attempt number \<open>k\<close> (from 0) of an operation starts.\<close>

fun state_after :: "('s \<Rightarrow> (error + 'a) \<times> 's) \<Rightarrow> nat \<Rightarrow> 's \<Rightarrow> 's" where
  "state_after operation 0 s = s"
| "state_after operation (Suc k) s = state_after operation k (snd (operation s))"

text \<open>Every call site uses the defaults \<^verbatim>\<open>maxRetries = 3\<close>, \<^verbatim>\<open>delay = 1000\<close>.\<close>

definition retried :: "('s \<Rightarrow> (error + 'a) \<times> 's) \<Rightarrow> 's \<Rightarrow> (error + 'a) \<times> 's" where
  "retried operation s = (case withRetry operation 3 1000 s of (r, s', evs) \<Rightarrow> (r, s'))"

text \<open>Sequencing of awaited steps: the first rejection ends the body.\<close>

definition andThen ::
  "('s \<Rightarrow> (error + 'a) \<times> 's) \<Rightarrow> ('a \<Rightarrow> 's \<Rightarrow> (error + 'b) \<times> 's) \<Rightarrow> 's \<Rightarrow> (error + 'b) \<times> 's"
where
  "andThen m f s = (case m s of (Inl e, s') \<Rightarrow> (Inl e, s') | (Inr v, s') \<Rightarrow> f v s')"

subsection \<open>Values\<close>

text \<open>
  Documents (\<^verbatim>\<open>AdminConfig\<close>, \<^verbatim>\<open>Favorite\<close>, \<^verbatim>\<open>PlayRecord\<close>, \<^verbatim>\<open>SkipConfig\<close>, cached
  values) are JSON values: they are stored through \<^verbatim>\<open>JSON.stringify\<close> into \<^verbatim>\<open>JSONB\<close>
  columns or cache strings and come back parsed. A stored text is modelled by the value
  it denotes.
\<close>

datatype json =
    JNull
  | JBool bool
  | JNum int
  | JStr string
  | JArr "json list"
  | JObj "(string \<times> json) list"

text \<open>JavaScript truthiness (\<^verbatim>\<open>if (cached)\<close>) of a parsed value.\<close>

fun truthy :: "json \<Rightarrow> bool" where
  "truthy JNull = False"
| "truthy (JBool b) = b"
| "truthy (JNum n) = (n \<noteq> 0)"
| "truthy (JStr s) = (s \<noteq> [])"
| "truthy (JArr xs) = True"
| "truthy (JObj kvs) = True"

text \<open>\<^verbatim>\<open>key.split('+')\<close>: the pieces between separators; never the empty array.\<close>

fun js_split :: "char \<Rightarrow> string \<Rightarrow> string list" where
  "js_split c [] = [[]]"
| "js_split c (x # xs) =
     (if x = c then [] # js_split c xs
      else (case js_split c xs of [] \<Rightarrow> [[x]] | p # ps \<Rightarrow> (x # p) # ps))"


text \<open>\<^verbatim>\<open>keys.join(':')\<close>.\<close>

fun js_join :: "string \<Rightarrow> string list \<Rightarrow> string" where
  "js_join sep [] = []"
| "js_join sep [x] = x"
| "js_join sep (x # y # ys) = x @ sep @ js_join sep (y # ys)"

text \<open>Buffers are lists of bytes; \<^verbatim>\<open>Buffer.from(s, 'utf8')\<close> is the bytes of the string.\<close>

type_synonym byte = "8 word"

definition utf8 :: "string \<Rightarrow> byte list" where
  "utf8 s = map of_char s"

text \<open>
  The characters (code points) of a string, which a \<^verbatim>\<open>VARCHAR(n)\<close> column counts: every
  byte but the continuation bytes \<^verbatim>\<open>10xxxxxx\<close> starts one. The UTF-16 code units, which
  \<^verbatim>\<open>.length\<close> counts: two for a character of four bytes (lead byte \<^verbatim>\<open>11110xxx\<close>),
  one for the others.
\<close>

definition continuation :: "char \<Rightarrow> bool" where
  "continuation c = (128 \<le> (of_char c :: nat) \<and> (of_char c :: nat) < 192)"

definition char_length :: "string \<Rightarrow> nat" where
  "char_length s = length (filter (\<lambda>c. \<not> continuation c) s)"

definition js_length :: "string \<Rightarrow> nat" where
  "js_length s = char_length s + length (filter (\<lambda>c. 240 \<le> (of_char c :: nat)) s)"

subsection \<open>Values of a \<^verbatim>\<open>JSONB\<close> column\<close>

text \<open>
  A \<^verbatim>\<open>JSONB\<close> column keeps the members of an object sorted by key, a shorter key
  first and keys of one length in the order of their bytes, and of several members with
  one key the last one.
\<close>

fun bytes_less :: "byte list \<Rightarrow> byte list \<Rightarrow> bool" where
  "bytes_less (x # xs) (y # ys) = (x < y \<or> (x = y \<and> bytes_less xs ys))"
| "bytes_less xs ys = False"

definition key_less :: "string \<Rightarrow> string \<Rightarrow> bool" where
  "key_less k1 k2 =
     (length (utf8 k1) < length (utf8 k2) \<or>
      (length (utf8 k1) = length (utf8 k2) \<and> bytes_less (utf8 k1) (utf8 k2)))"

fun insert_member :: "string \<times> json \<Rightarrow> (string \<times> json) list \<Rightarrow> (string \<times> json) list" where
  "insert_member m [] = [m]"
| "insert_member m (x # xs) =
     (if key_less (fst x) (fst m) then x # insert_member m xs else m # x # xs)"

fun last_members :: "(string \<times> json) list \<Rightarrow> (string \<times> json) list" where
  "last_members [] = []"
| "last_members (m # ms) =
     (if fst m \<in> set (map fst ms) then last_members ms else m # last_members ms)"

definition jsonb_members :: "(string \<times> json) list \<Rightarrow> (string \<times> json) list" where
  "jsonb_members ms = foldr insert_member (last_members ms) []"

fun jsonb :: "json \<Rightarrow> json" where
  "jsonb (JArr xs) = JArr (map jsonb xs)"
| "jsonb (JObj ms) = JObj (jsonb_members (map (\<lambda>(k, v). (k, jsonb v)) ms))"
| "jsonb v = v"

text \<open>The strings of a document: its string values and the keys of its objects.\<close>

fun json_strings :: "json \<Rightarrow> string list" where
  "json_strings (JStr s) = [s]"
| "json_strings (JArr xs) = concat (map json_strings xs)"
| "json_strings (JObj ms) = concat (map (\<lambda>(k, v). k # json_strings v) ms)"
| "json_strings v = []"

text \<open>
  A parameter \<^verbatim>\<open>JSON.stringify(value)\<close> bound to a \<^verbatim>\<open>JSONB\<close> column.
  \<^verbatim>\<open>JSON.stringify\<close> writes the character NUL of a string as the escape
  \<^verbatim>\<open>\u0000\<close>, which the input of the type rejects; any other document is accepted and
  stored in the form above.
\<close>

definition jsonb_in :: "json \<Rightarrow> error + json" where
  "jsonb_in v =
     (if list_ex (\<lambda>s. CHR 0x00 \<in> set s) (json_strings v) then Inl UntranslatableCharacter
      else Inr (jsonb v))"

subsection \<open>The relational schema (\<^verbatim>\<open>initializeTables\<close>)\<close>

text \<open>
  One record per table, with the columns that some query reads; \<^verbatim>\<open>updated_at\<close>, and
  \<^verbatim>\<open>created_at\<close> of the tables that never order or select by it, are written but never
  read and are left out. Times are milliseconds.
\<close>

record user_row =
  user_id :: nat
  username :: string
  password_hash :: string
  email :: string
  created_at :: nat
  last_login :: "nat option"
  is_active :: bool

record admin_config_row =
  ac_id :: nat
  config_data :: json

text \<open>\<^verbatim>\<open>favorites\<close>, \<^verbatim>\<open>play_records\<close> and \<^verbatim>\<open>skip_configs\<close> have the same columns.\<close>

record keyed_row =
  kr_id :: nat
  kr_username :: string
  kr_source :: string
  kr_item_id :: string
  kr_data :: json

record search_history_row =
  sh_id :: nat
  sh_username :: string
  sh_keyword :: string
  sh_created_at :: nat

text \<open>
  The database: the tables, the \<^verbatim>\<open>SERIAL\<close> sequences (next value), and the faults
  still to come: each \<^verbatim>\<open>pool.connect()\<close> and each \<^verbatim>\<open>client.query\<close> takes the head of
  \<open>faults\<close>, and fails without effect when it is \<open>True\<close>; the empty list is a
  connection that never fails. A fault is a failure whose cause the model leaves out: the
  connection is lost, or the server meets one of its limits (memory, disk, the size of
  a row of an index).

  \<^verbatim>\<open>client.query(text, params)\<close> sends the strings among the parameters as text. The
  server reads the parameters before it runs the statement, and rejects a text with the
  character NUL; \<open>params\<close> are the strings sent.
\<close>

record pg_state =
  users :: "user_row list"
  admin_config :: "admin_config_row list"
  favorites :: "keyed_row list"
  play_records :: "keyed_row list"
  search_history :: "search_history_row list"
  skip_configs :: "keyed_row list"
  admin_config_id_seq :: nat
  favorites_id_seq :: nat
  play_records_id_seq :: nat
  search_history_id_seq :: nat
  skip_configs_id_seq :: nat
  faults :: "bool list"

definition bind_params :: "string list \<Rightarrow> (pg_state \<Rightarrow> (error + 'a) \<times> pg_state) \<Rightarrow> pg_state \<Rightarrow> (error + 'a) \<times> pg_state" where
  "bind_params params statement db =
     (if list_ex (\<lambda>p. CHR 0x00 \<in> set p) params then (Inl InvalidByteSequence, db)
      else statement db)"

definition client_query ::
  "string list \<Rightarrow> (pg_state \<Rightarrow> (error + 'a) \<times> pg_state) \<Rightarrow> pg_state \<Rightarrow> (error + 'a) \<times> pg_state" where
  "client_query params statement db =
     (case faults db of
        [] \<Rightarrow> bind_params params statement db
      | True # fs \<Rightarrow> (Inl ConnectionError, db\<lparr>faults := fs\<rparr>)
      | False # fs \<Rightarrow> bind_params params statement (db\<lparr>faults := fs\<rparr>))"

definition pool_connect :: "pg_state \<Rightarrow> (error + unit) \<times> pg_state" where
  "pool_connect db =
     (case faults db of
        [] \<Rightarrow> (Inr (), db)
      | True # fs \<Rightarrow> (Inl ConnectionError, db\<lparr>faults := fs\<rparr>)
      | False # fs \<Rightarrow> (Inr (), db\<lparr>faults := fs\<rparr>))"

text \<open>
  Storing a string into a \<^verbatim>\<open>VARCHAR(n)\<close> column: a value of more than \<open>n\<close> characters
  is an error, unless the characters in excess are all spaces, which the database cuts
  off (a space is one byte, so they are the last bytes). The value of a parameter is
  fitted to its column when the statement is planned: the error comes before the
  statement has any effect, and whether or not a row is affected.
\<close>

definition varchar :: "nat \<Rightarrow> string \<Rightarrow> error + string" where
  "varchar n s =
     (if char_length s \<le> n then Inr s
      else if \<forall>c \<in> set (drop (length s - (char_length s - n)) s). c = CHR '' ''
           then Inr (take (length s - (char_length s - n)) s)
      else Inl StringTooLong)"

subsection \<open>Search history\<close>




text \<open>\<^verbatim>\<open>DELETE FROM search_history WHERE username = $1 AND keyword = $2\<close>\<close>

definition sql_delete_search_keyword :: "string \<Rightarrow> string \<Rightarrow> pg_state \<Rightarrow> (error + unit) \<times> pg_state" where
  "sql_delete_search_keyword userName keyword db =
     (Inr (), db\<lparr>search_history :=
        filter (\<lambda>r. \<not> (sh_username r = userName \<and> sh_keyword r = keyword)) (search_history db)\<rparr>)"




text \<open>\<^verbatim>\<open>DELETE FROM search_history WHERE username = $1\<close>\<close>

definition sql_delete_search_history :: "string \<Rightarrow> pg_state \<Rightarrow> (error + unit) \<times> pg_state" where
  "sql_delete_search_history userName db =
     (Inr (), db\<lparr>search_history := filter (\<lambda>r. sh_username r \<noteq> userName) (search_history db)\<rparr>)"

text \<open>
  \<^verbatim>\<open>deleteSearchHistory(userName, keyword?)\<close>: the optional parameter is \<open>None\<close> when
  omitted; \<^verbatim>\<open>if (keyword)\<close> holds for a string that is present and not empty.
\<close>

definition pg_deleteSearchHistory :: "string \<Rightarrow> string option \<Rightarrow> pg_state \<Rightarrow> (error + unit) \<times> pg_state" where
  "pg_deleteSearchHistory userName keyword =
     retried
       (andThen pool_connect (\<lambda>_.
          case keyword of
            None \<Rightarrow> client_query [userName] (sql_delete_search_history userName)
          | Some k \<Rightarrow>
              if k \<noteq> [] then client_query [userName, k] (sql_delete_search_keyword userName k)
              else client_query [userName] (sql_delete_search_history userName)))"


subsection \<open>Favorites, play records, skip configurations\<close>











subsection \<open>Administrator configuration\<close>

text \<open>\<^verbatim>\<open>SELECT config_data FROM admin_config ORDER BY id DESC LIMIT 1\<close>\<close>

definition sql_select_admin_config :: "pg_state \<Rightarrow> (error + admin_config_row list) \<times> pg_state" where
  "sql_select_admin_config db =
     (Inr (take 1 (sort_key (\<lambda>r. - int (ac_id r)) (admin_config db))), db)"

text \<open>
  \<^verbatim>\<open>getAdminConfig\<close>: \<^verbatim>\<open>null\<close> (here \<open>None\<close>) without a row, else the document of the
  first row; a document that is the JSON \<^verbatim>\<open>null\<close> is the same \<^verbatim>\<open>null\<close> to the caller.
\<close>

definition pg_getAdminConfig :: "pg_state \<Rightarrow> (error + json option) \<times> pg_state" where
  "pg_getAdminConfig =
     andThen (retried (andThen pool_connect (\<lambda>_. client_query [] sql_select_admin_config)))
       (\<lambda>rows db.
          (Inr (case rows of
                  [] \<Rightarrow> None
                | r # rs \<Rightarrow> if config_data r = JNull then None else Some (config_data r)), db))"

text \<open>\<^verbatim>\<open>DELETE FROM admin_config\<close>\<close>

definition sql_delete_admin_config :: "pg_state \<Rightarrow> (error + unit) \<times> pg_state" where
  "sql_delete_admin_config db = (Inr (), db\<lparr>admin_config := []\<rparr>)"

text \<open>\<^verbatim>\<open>INSERT INTO admin_config (config_data) VALUES ($1)\<close>\<close>

definition sql_insert_admin_config :: "json \<Rightarrow> pg_state \<Rightarrow> (error + unit) \<times> pg_state" where
  "sql_insert_admin_config config db =
     (case jsonb_in config of
        Inl e \<Rightarrow> (Inl e, db)
      | Inr doc \<Rightarrow>
          (Inr (), db\<lparr>admin_config := admin_config db @
                         [\<lparr>ac_id = admin_config_id_seq db, config_data = doc\<rparr>],
                      admin_config_id_seq := Suc (admin_config_id_seq db)\<rparr>))"

text \<open>
  The two statements run on one client outside any transaction (no \<^verbatim>\<open>BEGIN\<close>), so each
  commits on its own.
\<close>

definition pg_setAdminConfig :: "json \<Rightarrow> pg_state \<Rightarrow> (error + unit) \<times> pg_state" where
  "pg_setAdminConfig config =
     retried
       (andThen pool_connect (\<lambda>_.
        andThen (client_query [] sql_delete_admin_config) (\<lambda>_.
        client_query [] (sql_insert_admin_config config))))"

subsection \<open>Users\<close>

record UserInfo =
  ui_email :: string
  ui_createdAt :: nat
  ui_lastLoginAt :: "nat option"

text \<open>\<^verbatim>\<open>SELECT email, created_at, last_login FROM users WHERE username = $1\<close>\<close>

definition sql_select_user :: "string \<Rightarrow> pg_state \<Rightarrow> (error + user_row list) \<times> pg_state" where
  "sql_select_user userName db = (Inr (filter (\<lambda>r. username r = userName) (users db)), db)"

definition pg_getUserInfo :: "string \<Rightarrow> pg_state \<Rightarrow> (error + UserInfo option) \<times> pg_state" where
  "pg_getUserInfo userName =
     andThen (retried (andThen pool_connect (\<lambda>_. client_query [userName] (sql_select_user userName))))
       (\<lambda>rows db.
          (Inr (case rows of
                  [] \<Rightarrow> None
                | row # rs \<Rightarrow> Some \<lparr>ui_email = email row, ui_createdAt = created_at row,
                                    ui_lastLoginAt = last_login row\<rparr>), db))"

text \<open>
  \<^verbatim>\<open>UPDATE users SET email = $1, updated_at = CURRENT_TIMESTAMP WHERE username = $2\<close>, the
  column being \<^verbatim>\<open>email VARCHAR(255) UNIQUE NOT NULL\<close>.
\<close>

definition sql_update_user_email :: "string \<Rightarrow> string \<Rightarrow> pg_state \<Rightarrow> (error + unit) \<times> pg_state" where
  "sql_update_user_email newEmail userName db =
     (case varchar 255 newEmail of
        Inl e \<Rightarrow> (Inl e, db)
      | Inr em \<Rightarrow>
          if \<not> (\<exists>r \<in> set (users db). username r = userName) then (Inr (), db)
          else if \<exists>r \<in> set (users db). username r \<noteq> userName \<and> email r = em
               then (Inl UniqueViolation, db)
               else (Inr (), db\<lparr>users :=
                       map (\<lambda>r. if username r = userName then r\<lparr>email := em\<rparr> else r) (users db)\<rparr>))"

definition pg_setUserInfo :: "string \<Rightarrow> UserInfo \<Rightarrow> pg_state \<Rightarrow> (error + unit) \<times> pg_state" where
  "pg_setUserInfo userName userInfo =
     retried (andThen pool_connect (\<lambda>_.
       client_query [ui_email userInfo, userName]
         (sql_update_user_email (ui_email userInfo) userName)))"

text \<open>
  \<^verbatim>\<open>DELETE FROM users WHERE username = $1\<close>; the per-user tables reference the user
  \<^verbatim>\<open>ON DELETE CASCADE\<close>.
\<close>

definition sql_delete_user :: "string \<Rightarrow> pg_state \<Rightarrow> (error + unit) \<times> pg_state" where
  "sql_delete_user userName db =
     (Inr (), db\<lparr>users := filter (\<lambda>r. username r \<noteq> userName) (users db),
                 favorites := filter (\<lambda>r. kr_username r \<noteq> userName) (favorites db),
                 play_records := filter (\<lambda>r. kr_username r \<noteq> userName) (play_records db),
                 search_history := filter (\<lambda>r. sh_username r \<noteq> userName) (search_history db),
                 skip_configs := filter (\<lambda>r. kr_username r \<noteq> userName) (skip_configs db)\<rparr>)"

definition pg_deleteUser :: "string \<Rightarrow> pg_state \<Rightarrow> (error + unit) \<times> pg_state" where
  "pg_deleteUser userName =
     retried (andThen pool_connect (\<lambda>_. client_query [userName] (sql_delete_user userName)))"

text \<open>\<^verbatim>\<open>SELECT 1 FROM users WHERE username = $1\<close>\<close>

definition pg_checkUserExist :: "string \<Rightarrow> pg_state \<Rightarrow> (error + bool) \<times> pg_state" where
  "pg_checkUserExist userName =
     andThen (retried (andThen pool_connect (\<lambda>_. client_query [userName] (sql_select_user userName))))
       (\<lambda>rows db. (Inr (length rows > 0), db))"

text \<open>\<^verbatim>\<open>SELECT username FROM users WHERE is_active = true ORDER BY created_at\<close>\<close>

definition sql_select_active_users :: "pg_state \<Rightarrow> (error + user_row list) \<times> pg_state" where
  "sql_select_active_users db = (Inr (sort_key created_at (filter is_active (users db))), db)"

definition pg_getAllUsers :: "pg_state \<Rightarrow> (error + string list) \<times> pg_state" where
  "pg_getAllUsers =
     andThen (retried (andThen pool_connect (\<lambda>_. client_query [] sql_select_active_users)))
       (\<lambda>rows db. (Inr (map username rows), db))"

subsection \<open>The cache backend: \<^verbatim>\<open>RedisStorage\<close>\<close>

text \<open>
  The key space of the Redis client: under each key the value and, when it was written
  with \<^verbatim>\<open>setEx\<close>, its time to live in seconds. Expiry needs a clock and is not modelled.
  \<open>rfaults\<close> are the failures of the backend still to come, one entry per command, as
  for the database.
\<close>

record redis_state =
  kv :: "(string \<times> json \<times> nat option) list"
  rfaults :: "bool list"

definition redis_command :: "(redis_state \<Rightarrow> 'a \<times> redis_state) \<Rightarrow> redis_state \<Rightarrow> (error + 'a) \<times> redis_state" where
  "redis_command cmd r =
     (case rfaults r of
        [] \<Rightarrow> (case cmd r of (v, r') \<Rightarrow> (Inr v, r'))
      | True # fs \<Rightarrow> (Inl ConnectionError, r\<lparr>rfaults := fs\<rparr>)
      | False # fs \<Rightarrow> (case cmd (r\<lparr>rfaults := fs\<rparr>) of (v, r') \<Rightarrow> (Inr v, r')))"

text \<open>\<^verbatim>\<open>getCache(key)\<close>: \<^verbatim>\<open>client.get(key)\<close>, \<^verbatim>\<open>null\<close> for a missing key.\<close>

definition redis_getCache :: "string \<Rightarrow> redis_state \<Rightarrow> (error + json option) \<times> redis_state" where
  "redis_getCache key = redis_command (\<lambda>r. (map_option fst (map_of (kv r) key), r))"

text \<open>
  \<^verbatim>\<open>setCache(key, value, ttl?)\<close>: \<^verbatim>\<open>if (ttl) setEx(key, ttl, value) else set(key, value)\<close>;
  a \<^verbatim>\<open>ttl\<close> of 0 is falsy.
\<close>

definition redis_setCache :: "string \<Rightarrow> json \<Rightarrow> nat option \<Rightarrow> redis_state \<Rightarrow> (error + unit) \<times> redis_state" where
  "redis_setCache key v ttl =
     redis_command (\<lambda>r.
       ((), r\<lparr>kv := (key, v, (case ttl of None \<Rightarrow> None | Some t \<Rightarrow> if t \<noteq> 0 then Some t else None))
                    # filter (\<lambda>e. fst e \<noteq> key) (kv r)\<rparr>))"

text \<open>\<^verbatim>\<open>deleteCache(key)\<close>: \<^verbatim>\<open>client.del(key)\<close>.\<close>

definition redis_deleteCache :: "string \<Rightarrow> redis_state \<Rightarrow> (error + unit) \<times> redis_state" where
  "redis_deleteCache key = redis_command (\<lambda>r. ((), r\<lparr>kv := filter (\<lambda>e. fst e \<noteq> key) (kv r)\<rparr>))"

subsection \<open>The hybrid store: \<^verbatim>\<open>HybridStorage\<close>\<close>

record hybrid_state =
  postgres :: pg_state
  redis :: redis_state
  cacheEnabled :: bool
  cacheTTL :: nat

text \<open>\<^verbatim>\<open>`cache:${prefix}:${keys.join(':')}`\<close>\<close>

definition getCacheKey :: "string \<Rightarrow> string list \<Rightarrow> string" where
  "getCacheKey pfx keys = ''cache:'' @ pfx @ '':'' @ js_join '':'' keys"

text \<open>
  \<^verbatim>\<open>getFromCache\<close>: \<^verbatim>\<open>null\<close> (here \<open>None\<close>) when the cache is disabled, when the key is
  missing, when the stored text is the JSON \<^verbatim>\<open>null\<close>, and when the backend throws: the
  \<^verbatim>\<open>catch\<close> logs a warning and returns \<^verbatim>\<open>null\<close>.
\<close>

definition getFromCache :: "string \<Rightarrow> hybrid_state \<Rightarrow> json option \<times> hybrid_state" where
  "getFromCache key h =
     (if \<not> cacheEnabled h then (None, h)
      else case redis_getCache key (redis h) of
             (Inl err, r) \<Rightarrow> (None, h\<lparr>redis := r\<rparr>)
           | (Inr None, r) \<Rightarrow> (None, h\<lparr>redis := r\<rparr>)
           | (Inr (Some v), r) \<Rightarrow> ((if v = JNull then None else Some v), h\<lparr>redis := r\<rparr>))"

text \<open>
  \<^verbatim>\<open>setToCache(key, value, ttl?)\<close>: writes with \<^verbatim>\<open>ttl || this.cacheTTL\<close>; the \<^verbatim>\<open>catch\<close>
  logs a warning and returns.
\<close>

definition setToCache :: "string \<Rightarrow> json \<Rightarrow> nat option \<Rightarrow> hybrid_state \<Rightarrow> hybrid_state" where
  "setToCache key v ttl h =
     (if \<not> cacheEnabled h then h
      else case redis_setCache key v
                  (Some (case ttl of None \<Rightarrow> cacheTTL h
                         | Some t \<Rightarrow> if t \<noteq> 0 then t else cacheTTL h)) (redis h) of
             (res, r) \<Rightarrow> h\<lparr>redis := r\<rparr>)"

text \<open>\<^verbatim>\<open>deleteFromCache(key)\<close>, with the same \<^verbatim>\<open>catch\<close>.\<close>

definition deleteFromCache :: "string \<Rightarrow> hybrid_state \<Rightarrow> hybrid_state" where
  "deleteFromCache key h =
     (if \<not> cacheEnabled h then h
      else case redis_deleteCache key (redis h) of (res, r) \<Rightarrow> h\<lparr>redis := r\<rparr>)"

text \<open>A call of a method of \<^verbatim>\<open>this.postgres\<close> or of \<^verbatim>\<open>this.redis\<close>.\<close>

definition on_postgres :: "(pg_state \<Rightarrow> (error + 'a) \<times> pg_state) \<Rightarrow> hybrid_state \<Rightarrow> (error + 'a) \<times> hybrid_state" where
  "on_postgres m h = (case m (postgres h) of (res, db) \<Rightarrow> (res, h\<lparr>postgres := db\<rparr>))"

definition on_redis :: "(redis_state \<Rightarrow> (error + 'a) \<times> redis_state) \<Rightarrow> hybrid_state \<Rightarrow> (error + 'a) \<times> hybrid_state" where
  "on_redis m h = (case m (redis h) of (res, r) \<Rightarrow> (res, h\<lparr>redis := r\<rparr>))"

text \<open>\<^verbatim>\<open>if (cached)\<close> on the result of \<^verbatim>\<open>getFromCache\<close>.\<close>

definition cache_hit :: "json option \<Rightarrow> bool" where
  "cache_hit cached = (case cached of None \<Rightarrow> False | Some v \<Rightarrow> truthy v)"

text \<open>A \<^verbatim>\<open>UserInfo\<close> object as the value it is cached and returned as.\<close>

definition UserInfo_json :: "UserInfo \<Rightarrow> json" where
  "UserInfo_json i =
     JObj ([(''email'', JStr (ui_email i)), (''createdAt'', JNum (int (ui_createdAt i)))] @
           (case ui_lastLoginAt i of None \<Rightarrow> [] | Some t \<Rightarrow> [(''lastLoginAt'', JNum (int t))]))"

text \<open>
  \<^verbatim>\<open>getUserInfo\<close>: a truthy cached value is returned as it is; otherwise the database is
  read, and a user that was found is written to the cache for one hour.
\<close>

definition hybrid_getUserInfo :: "string \<Rightarrow> hybrid_state \<Rightarrow> (error + json option) \<times> hybrid_state" where
  "hybrid_getUserInfo userName h =
     (let cacheKey = getCacheKey ''userinfo'' [userName] in
      case getFromCache cacheKey h of
        (cached, h1) \<Rightarrow>
          if cache_hit cached then (Inr cached, h1)
          else andThen (on_postgres (pg_getUserInfo userName))
                 (\<lambda>userInfo h2.
                    (Inr (map_option UserInfo_json userInfo),
                     (case userInfo of
                        None \<Rightarrow> h2
                      | Some i \<Rightarrow> setToCache cacheKey (UserInfo_json i) (Some 3600) h2))) h1)"

definition hybrid_setUserInfo :: "string \<Rightarrow> UserInfo \<Rightarrow> hybrid_state \<Rightarrow> (error + unit) \<times> hybrid_state" where
  "hybrid_setUserInfo userName userInfo =
     andThen (on_postgres (pg_setUserInfo userName userInfo))
       (\<lambda>_ h. (Inr (), setToCache (getCacheKey ''userinfo'' [userName])
                          (UserInfo_json userInfo) (Some 3600) h))"

definition hybrid_getAdminConfig :: "hybrid_state \<Rightarrow> (error + json option) \<times> hybrid_state" where
  "hybrid_getAdminConfig h =
     (let cacheKey = getCacheKey ''admin'' [''config''] in
      case getFromCache cacheKey h of
        (cached, h1) \<Rightarrow>
          if cache_hit cached then (Inr cached, h1)
          else andThen (on_postgres pg_getAdminConfig)
                 (\<lambda>config h2.
                    (Inr config,
                     (case config of
                        None \<Rightarrow> h2
                      | Some c \<Rightarrow> if truthy c then setToCache cacheKey c (Some 1800) h2 else h2))) h1)"

definition hybrid_setAdminConfig :: "json \<Rightarrow> hybrid_state \<Rightarrow> (error + unit) \<times> hybrid_state" where
  "hybrid_setAdminConfig config =
     andThen (on_postgres (pg_setAdminConfig config))
       (\<lambda>_ h. (Inr (), setToCache (getCacheKey ''admin'' [''config'']) config (Some 1800) h))"

text \<open>\<^verbatim>\<open>checkUserExist\<close>: any cached value other than \<^verbatim>\<open>null\<close> is returned.\<close>

definition hybrid_checkUserExist :: "string \<Rightarrow> hybrid_state \<Rightarrow> (error + json) \<times> hybrid_state" where
  "hybrid_checkUserExist userName h =
     (let cacheKey = getCacheKey ''user_exists'' [userName] in
      case getFromCache cacheKey h of
        (Some cached, h1) \<Rightarrow> (Inr cached, h1)
      | (None, h1) \<Rightarrow>
          andThen (on_postgres (pg_checkUserExist userName))
            (\<lambda>exists h2. (Inr (JBool exists), setToCache cacheKey (JBool exists) (Some 1800) h2)) h1)"

definition hybrid_getAllUsers :: "hybrid_state \<Rightarrow> (error + json) \<times> hybrid_state" where
  "hybrid_getAllUsers h =
     (let cacheKey = getCacheKey ''users'' [''all''] in
      case getFromCache cacheKey h of
        (cached, h1) \<Rightarrow>
          (let miss = andThen (on_postgres pg_getAllUsers)
                        (\<lambda>us h2. (Inr (JArr (map JStr us)),
                                   setToCache cacheKey (JArr (map JStr us)) (Some 1800) h2))
           in case cached of
                None \<Rightarrow> miss h1
              | Some v \<Rightarrow> if truthy v then (Inr v, h1) else miss h1))"

text \<open>
  \<^verbatim>\<open>deleteUser\<close>: the database first; then the four listed cache keys (the deletions of
  \<^verbatim>\<open>Promise.all\<close> in list order); then \<^verbatim>\<open>this.redis.deleteUser(userName)\<close>, a method of
  \<^verbatim>\<open>BaseRedisStorage\<close> (\<^verbatim>\<open>redis-base.db.ts\<close>), which is the parameter \<open>base_deleteUser\<close>.
\<close>

definition hybrid_deleteUser ::
  "(string \<Rightarrow> redis_state \<Rightarrow> (error + unit) \<times> redis_state) \<Rightarrow> string \<Rightarrow>
   hybrid_state \<Rightarrow> (error + unit) \<times> hybrid_state"
where
  "hybrid_deleteUser base_deleteUser userName =
     andThen (on_postgres (pg_deleteUser userName))
       (\<lambda>_ h.
          (let patterns = [getCacheKey ''user'' [userName],
                           getCacheKey ''user_exists'' [userName],
                           getCacheKey ''login'' [userName],
                           getCacheKey ''users'' [''all'']]
           in on_redis (base_deleteUser userName) (fold deleteFromCache patterns h)))"

text \<open>\<^verbatim>\<open>clearUserCache\<close>, the administrative sibling of the deletions above.\<close>

definition hybrid_clearUserCache :: "string \<Rightarrow> hybrid_state \<Rightarrow> hybrid_state" where
  "hybrid_clearUserCache userName h =
     fold deleteFromCache
       [getCacheKey ''user'' [userName],
        getCacheKey ''user_exists'' [userName],
        getCacheKey ''userinfo'' [userName],
        getCacheKey ''login'' [userName]] h"

subsection \<open>Credentials: \<^verbatim>\<open>hashPassword\<close> and \<^verbatim>\<open>verifyPassword\<close>\<close>

text \<open>\<^verbatim>\<open>buffer.toString('hex')\<close>: two lower-case digits per byte.\<close>

definition hex_digit :: "nat \<Rightarrow> char" where
  "hex_digit n = ''0123456789abcdef'' ! n"

definition toHex :: "byte list \<Rightarrow> string" where
  "toHex bs = concat (map (\<lambda>b. [hex_digit (unat b div 16), hex_digit (unat b mod 16)]) bs)"

definition hex_value :: "char \<Rightarrow> nat option" where
  "hex_value c =
     (let n = of_char c :: nat
      in if 48 \<le> n \<and> n \<le> 57 then Some (n - 48)
         else if 97 \<le> n \<and> n \<le> 102 then Some (n - 87)
         else if 65 \<le> n \<and> n \<le> 70 then Some (n - 55)
         else None)"

text \<open>
  \<^verbatim>\<open>Buffer.from(key, 'hex')\<close>: decodes pairs of digits and stops at the first pair that is
  not hexadecimal; a last single character is dropped.
\<close>

fun fromHex :: "string \<Rightarrow> byte list" where
  "fromHex (a # b # rest) =
     (case (hex_value a, hex_value b) of
        (Some x, Some y) \<Rightarrow> of_nat (16 * x + y) # fromHex rest
      | _ \<Rightarrow> [])"
| "fromHex rest = []"

text \<open>
  The white space and line terminators of JavaScript, in UTF-8: U+0009 to U+000D,
  U+0020, U+00A0, U+1680, U+2000 to U+200A, U+2028, U+2029, U+202F, U+205F, U+3000 and
  U+FEFF.
\<close>

definition white_space :: "string list" where
  "white_space =
     [[CHR 0x09], [CHR 0x0A], [CHR 0x0B], [CHR 0x0C], [CHR 0x0D], [CHR 0x20],
      [CHR 0xC2, CHR 0xA0], [CHR 0xE1, CHR 0x9A, CHR 0x80],
      [CHR 0xE2, CHR 0x80, CHR 0x80], [CHR 0xE2, CHR 0x80, CHR 0x81],
      [CHR 0xE2, CHR 0x80, CHR 0x82], [CHR 0xE2, CHR 0x80, CHR 0x83],
      [CHR 0xE2, CHR 0x80, CHR 0x84], [CHR 0xE2, CHR 0x80, CHR 0x85],
      [CHR 0xE2, CHR 0x80, CHR 0x86], [CHR 0xE2, CHR 0x80, CHR 0x87],
      [CHR 0xE2, CHR 0x80, CHR 0x88], [CHR 0xE2, CHR 0x80, CHR 0x89],
      [CHR 0xE2, CHR 0x80, CHR 0x8A], [CHR 0xE2, CHR 0x80, CHR 0xA8],
      [CHR 0xE2, CHR 0x80, CHR 0xA9], [CHR 0xE2, CHR 0x80, CHR 0xAF],
      [CHR 0xE2, CHR 0x81, CHR 0x9F], [CHR 0xE3, CHR 0x80, CHR 0x80],
      [CHR 0xEF, CHR 0xBB, CHR 0xBF]]"

text \<open>The string without the white space at its start.\<close>

function skip_white :: "string \<Rightarrow> string" where
  "skip_white s =
     (case find (\<lambda>w. prefix w s) white_space of
        None \<Rightarrow> s
      | Some w \<Rightarrow> skip_white (drop (length w) s))"
  by pat_completeness auto
termination
proof (relation "measure length")
  fix s w
  assume "find (\<lambda>w. prefix w s) white_space = Some w"
  then have "w \<in> set white_space" "prefix w s"
    by (auto simp: find_Some_iff)
  then have "w \<noteq> []" "length w \<le> length s"
    by (auto simp: white_space_def prefix_length_le)
  then show "(drop (length w) s, s) \<in> measure length" by (cases w) auto
qed simp

declare skip_white.simps [simp del]

text \<open>
  \<^verbatim>\<open>parseInt(s)\<close>: white space, an optional sign, an optional \<^verbatim>\<open>0x\<close>, then the longest
  run of digits of the radix; \<^verbatim>\<open>NaN\<close> (here \<open>None\<close>) when there is no digit.
\<close>

definition digit_in :: "nat \<Rightarrow> char \<Rightarrow> bool" where
  "digit_in radix c = (case hex_value c of None \<Rightarrow> False | Some d \<Rightarrow> d < radix)"

definition digits_value :: "nat \<Rightarrow> string \<Rightarrow> nat" where
  "digits_value radix ds = foldl (\<lambda>acc c. acc * radix + (case hex_value c of None \<Rightarrow> 0 | Some d \<Rightarrow> d)) 0 ds"

definition parseInt :: "string \<Rightarrow> int option" where
  "parseInt s =
     (let s1 = skip_white s;
          negative = (case s1 of c # r \<Rightarrow> c = CHR ''-'' | [] \<Rightarrow> False);
          s2 = (case s1 of c # r \<Rightarrow> if c = CHR ''-'' \<or> c = CHR ''+'' then r else s1 | [] \<Rightarrow> s1);
          hex = (case s2 of a # b # r \<Rightarrow> a = CHR ''0'' \<and> (b = CHR ''x'' \<or> b = CHR ''X'') | _ \<Rightarrow> False);
          radix = (if hex then 16 else 10);
          ds = takeWhile (digit_in radix) (if hex then drop 2 s2 else s2)
      in if ds = [] then None
         else Some ((if negative then - 1 else 1) * int (digits_value radix ds)))"

text \<open>The decimal text of a number, as a template literal prints an integer.\<close>

function dec_string :: "nat \<Rightarrow> string" where
  "dec_string n = (if n < 10 then [hex_digit n] else dec_string (n div 10) @ [hex_digit (n mod 10)])"
  by pat_completeness auto
termination
  by (relation "measure id") auto

declare dec_string.simps [simp del]

subsubsection \<open>SHA-512 (FIPS 180-4)\<close>

definition Ch :: "64 word \<Rightarrow> 64 word \<Rightarrow> 64 word \<Rightarrow> 64 word" where
  "Ch x y z = (x AND y) XOR (NOT x AND z)"

definition Maj :: "64 word \<Rightarrow> 64 word \<Rightarrow> 64 word \<Rightarrow> 64 word" where
  "Maj x y z = (x AND y) XOR (x AND z) XOR (y AND z)"

definition Sigma0 :: "64 word \<Rightarrow> 64 word" where
  "Sigma0 x = word_rotr 28 x XOR word_rotr 34 x XOR word_rotr 39 x"

definition Sigma1 :: "64 word \<Rightarrow> 64 word" where
  "Sigma1 x = word_rotr 14 x XOR word_rotr 18 x XOR word_rotr 41 x"

definition sigma0 :: "64 word \<Rightarrow> 64 word" where
  "sigma0 x = word_rotr 1 x XOR word_rotr 8 x XOR drop_bit 7 x"

definition sigma1 :: "64 word \<Rightarrow> 64 word" where
  "sigma1 x = word_rotr 19 x XOR word_rotr 61 x XOR drop_bit 6 x"

text \<open>
  The round constants: the first 64 bits of the fractional parts of the cube roots of
  the first 80 primes, in decimal.
\<close>

definition sha512_K :: "64 word list" where
  "sha512_K =
    [
     4794697086780616226, 8158064640168781261, 13096744586834688815, 16840607885511220156,
     4131703408338449720, 6480981068601479193, 10538285296894168987, 12329834152419229976,
     15566598209576043074, 1334009975649890238, 2608012711638119052, 6128411473006802146,
     8268148722764581231, 9286055187155687089, 11230858885718282805, 13951009754708518548,
     16472876342353939154, 17275323862435702243, 1135362057144423861, 2597628984639134821,
     3308224258029322869, 5365058923640841347, 6679025012923562964, 8573033837759648693,
     10970295158949994411, 12119686244451234320, 12683024718118986047, 13788192230050041572,
     14330467153632333762, 15395433587784984357, 489312712824947311, 1452737877330783856,
     2861767655752347644, 3322285676063803686, 5560940570517711597, 5996557281743188959,
     7280758554555802590, 8532644243296465576, 9350256976987008742, 10552545826968843579,
     11727347734174303076, 12113106623233404929, 14000437183269869457, 14369950271660146224,
     15101387698204529176, 15463397548674623760, 17586052441742319658, 1182934255886127544,
     1847814050463011016, 2177327727835720531, 2830643537854262169, 3796741975233480872,
     4115178125766777443, 5681478168544905931, 6601373596472566643, 7507060721942968483,
     8399075790359081724, 8693463985226723168, 9568029438360202098, 10144078919501101548,
     10430055236837252648, 11840083180663258601, 13761210420658862357, 14299343276471374635,
     14566680578165727644, 15097957966210449927, 16922976911328602910, 17689382322260857208,
     500013540394364858, 748580250866718886, 1242879168328830382, 1977374033974150939,
     2944078676154940804, 3659926193048069267, 4368137639120453308, 4836135668995329356,
     5532061633213252278, 6448918945643986474, 6902733635092675308, 7801388544844847127
    ]"

type_synonym sha512_state =
  "64 word \<times> 64 word \<times> 64 word \<times> 64 word \<times> 64 word \<times> 64 word \<times> 64 word \<times> 64 word"

text \<open>The initial hash value: from the square roots of the first 8 primes.\<close>

definition sha512_H0 :: sha512_state where
  "sha512_H0 =
     (7640891576956012808, 13503953896175478587, 4354685564936845355, 11912009170470909681,
      5840696475078001361, 11170449401992604703, 2270897969802886507, 6620516959819538809)"

text \<open>Big-endian bytes of a word and of a length, and the word of 8 bytes.\<close>

definition be64 :: "64 word \<Rightarrow> byte list" where
  "be64 w = map (\<lambda>i. ucast (drop_bit (8 * (7 - i)) w)) [0, 1, 2, 3, 4, 5, 6, 7]"

primrec be_bytes :: "nat \<Rightarrow> nat \<Rightarrow> byte list" where
  "be_bytes 0 n = []"
| "be_bytes (Suc k) n = be_bytes k (n div 256) @ [of_nat n]"

definition word_of_bytes :: "byte list \<Rightarrow> 64 word" where
  "word_of_bytes bs = foldl (\<lambda>acc b. push_bit 8 acc OR ucast b) 0 bs"

text \<open>Padding to a multiple of 128 bytes: a one bit, zeros, the length in bits.\<close>

definition sha512_pad :: "byte list \<Rightarrow> byte list" where
  "sha512_pad msg =
     msg @ [0x80] @ replicate ((128 - (length msg + 17) mod 128) mod 128) 0 @
     be_bytes 16 (8 * length msg)"

definition sha512_blocks :: "byte list \<Rightarrow> byte list list" where
  "sha512_blocks bs = map (\<lambda>i. take 128 (drop (128 * i) bs)) [0..<length bs div 128]"

text \<open>The message schedule: 16 words of the block, extended to 80.\<close>

primrec sha512_extend :: "nat \<Rightarrow> 64 word list \<Rightarrow> 64 word list" where
  "sha512_extend 0 ws = ws"
| "sha512_extend (Suc n) ws =
     sha512_extend n
       (ws @ [sigma1 (ws ! (length ws - 2)) + ws ! (length ws - 7) +
              sigma0 (ws ! (length ws - 15)) + ws ! (length ws - 16)])"

definition sha512_schedule :: "byte list \<Rightarrow> 64 word list" where
  "sha512_schedule block =
     sha512_extend 64 (map (\<lambda>j. word_of_bytes (take 8 (drop (8 * j) block))) [0..<16])"

fun sha512_round :: "sha512_state \<Rightarrow> 64 word \<times> 64 word \<Rightarrow> sha512_state" where
  "sha512_round (a, b, c, d, e, f, g, h) (k, w) =
     (let T1 = h + Sigma1 e + Ch e f g + k + w;
          T2 = Sigma0 a + Maj a b c
      in (T1 + T2, a, b, c, d + T1, e, f, g))"

fun sha512_add :: "sha512_state \<Rightarrow> sha512_state \<Rightarrow> sha512_state" where
  "sha512_add (a, b, c, d, e, f, g, h) (a', b', c', d', e', f', g', h') =
     (a + a', b + b', c + c', d + d', e + e', f + f', g + g', h + h')"

definition sha512_compress :: "sha512_state \<Rightarrow> byte list \<Rightarrow> sha512_state" where
  "sha512_compress H block =
     sha512_add H (foldl sha512_round H (zip sha512_K (sha512_schedule block)))"

fun sha512_output :: "sha512_state \<Rightarrow> byte list" where
  "sha512_output (a, b, c, d, e, f, g, h) =
     be64 a @ be64 b @ be64 c @ be64 d @ be64 e @ be64 f @ be64 g @ be64 h"

definition sha512 :: "byte list \<Rightarrow> byte list" where
  "sha512 msg = sha512_output (foldl sha512_compress sha512_H0 (sha512_blocks (sha512_pad msg)))"

subsubsection \<open>HMAC (RFC 2104) and PBKDF2 (RFC 8018) over SHA-512\<close>

text \<open>
  The key of HMAC as a block of 128 bytes: a longer key is hashed first, a shorter one
  is filled up with zero bytes.
\<close>

definition hmac_key_block :: "byte list \<Rightarrow> byte list" where
  "hmac_key_block k =
     (let k' = (if length k > 128 then sha512 k else k)
      in k' @ replicate (128 - length k') 0)"

definition hmac_sha512 :: "byte list \<Rightarrow> byte list \<Rightarrow> byte list" where
  "hmac_sha512 k msg =
     sha512 (map (\<lambda>b. b XOR 0x5c) (hmac_key_block k) @
             sha512 (map (\<lambda>b. b XOR 0x36) (hmac_key_block k) @ msg))"

text \<open>\<open>U\<^sub>1 \<oplus> \<dots> \<oplus> U\<^sub>c\<close>: \<open>n\<close> further applications of the function after \<open>u\<close>.\<close>

primrec pbkdf2_xor :: "byte list \<Rightarrow> nat \<Rightarrow> byte list \<Rightarrow> byte list \<Rightarrow> byte list" where
  "pbkdf2_xor p 0 u acc = acc"
| "pbkdf2_xor p (Suc n) u acc =
     pbkdf2_xor p n (hmac_sha512 p u) (map (\<lambda>(x, y). x XOR y) (zip acc (hmac_sha512 p u)))"

definition pbkdf2_block :: "byte list \<Rightarrow> byte list \<Rightarrow> nat \<Rightarrow> nat \<Rightarrow> byte list" where
  "pbkdf2_block p s c i =
     (let u1 = hmac_sha512 p (s @ be_bytes 4 i) in pbkdf2_xor p (c - 1) u1 u1)"

definition pbkdf2_hmac_sha512 :: "byte list \<Rightarrow> byte list \<Rightarrow> nat \<Rightarrow> nat \<Rightarrow> byte list" where
  "pbkdf2_hmac_sha512 p s c dkLen =
     take dkLen (concat (map (pbkdf2_block p s c) [1..<Suc ((dkLen + 63) div 64)]))"

text \<open>
  \<^verbatim>\<open>crypto.pbkdf2(password, salt, iterations, keylen, 'sha512', callback)\<close>: the iteration
  count must be an integer from 1 to \<open>2\<^sup>3\<^sup>1 - 1\<close> (\<open>None\<close> is \<^verbatim>\<open>NaN\<close>) and the key length
  an integer (\<open>None\<close> is a number that is not an integer); otherwise the call throws.
  For the key length 0 the derivation fails, and the callback receives the error.
\<close>

definition crypto_pbkdf2 ::
  "string \<Rightarrow> string \<Rightarrow> int option \<Rightarrow> nat option \<Rightarrow> error + byte list" where
  "crypto_pbkdf2 password salt iterations keylen =
     (case iterations of
        None \<Rightarrow> Inl InvalidArgument
      | Some c \<Rightarrow>
          if c < 1 \<or> 2147483647 < c then Inl InvalidArgument
          else (case keylen of
                  None \<Rightarrow> Inl InvalidArgument
                | Some n \<Rightarrow>
                    if n = 0 then Inl DerivingBitsFailed
                    else Inr (pbkdf2_hmac_sha512 (utf8 password) (utf8 salt) (nat c) n)))"

text \<open>
  \<^verbatim>\<open>hashPassword\<close>; \<open>rnd\<close> is what \<^verbatim>\<open>randomBytes(32)\<close> returns.
\<close>

definition hashPassword :: "byte list \<Rightarrow> string \<Rightarrow> error + string" where
  "hashPassword rnd password =
     (let salt = toHex rnd;
          iterations = 100000;
          keyLength = 64
      in case crypto_pbkdf2 password salt (Some (int iterations)) (Some keyLength) of
           Inl err \<Rightarrow> Inl err
         | Inr derivedKey \<Rightarrow>
             Inr (''pbkdf2$'' @ dec_string iterations @ ''$'' @ salt @ ''$'' @ toHex derivedKey))"

text \<open>
  \<^verbatim>\<open>verifyPassword\<close>. \<^verbatim>\<open>const [, iterations, salt, key] = hash.split('$')\<close> leaves
  \<^verbatim>\<open>key\<close> undefined when there are fewer than four pieces, and \<^verbatim>\<open>key.length\<close> then
  throws. \<^verbatim>\<open>key.length / 2\<close> is an integer for an even length only.
  \<^verbatim>\<open>timingSafeEqual\<close> throws on buffers of different lengths; it is called in the
  callback of \<^verbatim>\<open>pbkdf2\<close>, where nothing catches the exception, so that the promise is
  neither resolved nor rejected: the result \<open>None\<close>. \<open>Some\<close> is a promise that settles.
\<close>

definition verifyPassword :: "string \<Rightarrow> string \<Rightarrow> (error + bool) option" where
  "verifyPassword password hash =
     (if prefix ''pbkdf2$'' hash then
        (case js_split CHR ''$'' hash of
           p0 # iterations # salt # key # rest \<Rightarrow>
             (let keyLength = (if even (js_length key) then Some (js_length key div 2) else None)
              in case crypto_pbkdf2 password salt (parseInt iterations) keyLength of
                   Inl err \<Rightarrow> Some (Inl err)
                 | Inr derivedKey \<Rightarrow>
                     (let expectedKey = fromHex key
                      in if length derivedKey \<noteq> length expectedKey then None
                         else Some (Inr (derivedKey = expectedKey))))
         | _ \<Rightarrow> Some (Inl TypeError))
      else Some (Inr (hash = password)))"

subsection \<open>Reference notions for the properties\<close>




text \<open>
  The cache is enabled and the next command of the backend fails: the read of the cache
  throws.
\<close>

definition cache_read_throws :: "hybrid_state \<Rightarrow> bool" where
  "cache_read_throws h =
     (cacheEnabled h \<and> (case rfaults (redis h) of True # fs \<Rightarrow> True | _ \<Rightarrow> False))"

text \<open>
  The cache is enabled, the next command succeeds without a value that the method
  serves (the key is missing, or its value fails the test \<open>served\<close> of the method), and
  the command after it fails: the write that populates the cache throws.
\<close>

definition cache_population_throws :: "(json \<Rightarrow> bool) \<Rightarrow> string \<Rightarrow> hybrid_state \<Rightarrow> bool" where
  "cache_population_throws served key h =
     (cacheEnabled h \<and>
      (case map_of (kv (redis h)) key of None \<Rightarrow> True | Some (v, ttl) \<Rightarrow> \<not> served v) \<and>
      (case rfaults (redis h) of False # True # fs \<Rightarrow> True | _ \<Rightarrow> False))"

subsection \<open>Example states\<close>

definition alice :: user_row where
  "alice = \<lparr>user_id = 1, username = ''alice'', password_hash = ''secret'',
            email = ''alice@x.com'', created_at = 1000, last_login = None, is_active = True\<rparr>"

definition example_db :: pg_state where
  "example_db =
     \<lparr>users = [alice],
      admin_config = [\<lparr>ac_id = 1, config_data = JObj [(''SiteName'', JStr ''LunaTV'')]\<rparr>],
      favorites = [], play_records = [],
      search_history =
        [\<lparr>sh_id = 1, sh_username = ''alice'', sh_keyword = ''news'', sh_created_at = 10\<rparr>,
         \<lparr>sh_id = 2, sh_username = ''alice'', sh_keyword = ''films'', sh_created_at = 20\<rparr>],
      skip_configs = [],
      admin_config_id_seq = 2, favorites_id_seq = 1, play_records_id_seq = 1,
      search_history_id_seq = 3, skip_configs_id_seq = 1,
      faults = []\<rparr>"

text \<open>
  A connection on which, three times in a row, \<^verbatim>\<open>pool.connect()\<close> and the first query
  succeed and the second query fails.
\<close>

definition failing_connection :: "bool list" where
  "failing_connection = [False, False, True, False, False, True, False, False, True]"

definition new_config :: json where
  "new_config = JObj [(''SiteName'', JStr ''New'')]"

definition new_info :: UserInfo where
  "new_info = \<lparr>ui_email = ''new@x.com'', ui_createdAt = 1000, ui_lastLoginAt = None\<rparr>"

text \<open>A hybrid store whose cache holds an entry of user information for \<^verbatim>\<open>alice\<close>.\<close>

definition example_hybrid :: hybrid_state where
  "example_hybrid =
     \<lparr>postgres = example_db,
      redis = \<lparr>kv = [(''cache:userinfo:alice'',
                     UserInfo_json \<lparr>ui_email = ''old@x.com'', ui_createdAt = 1000, ui_lastLoginAt = None\<rparr>,
                     Some 3600),
                    (''cache:user_exists:alice'', JBool True, Some 1800)],
               rfaults = []\<rparr>,
      cacheEnabled = True,
      cacheTTL = 3600\<rparr>"

text \<open>The same store with a cache backend whose next two commands fail.\<close>

definition cache_down :: "hybrid_state \<Rightarrow> hybrid_state" where
  "cache_down h = h\<lparr>redis := (redis h)\<lparr>rfaults := [True, True]\<rparr>\<rparr>"

text \<open>
  An instance of the parameter of \<open>hybrid_deleteUser\<close> for the example: one command that
  removes the keys of the user's own records, \<^verbatim>\<open>u:<name>:...\<close>.
\<close>

definition example_base_deleteUser :: "string \<Rightarrow> redis_state \<Rightarrow> (error + unit) \<times> redis_state" where
  "example_base_deleteUser userName =
     redis_command (\<lambda>r. ((), r\<lparr>kv := filter (\<lambda>e. \<not> prefix (''u:'' @ userName @ '':'') (fst e)) (kv r)\<rparr>))"








section \<open>Properties\<close>

subsection \<open>Retry policy\<close>

text \<open>The events of \<open>n\<close> failed attempts from attempt \<open>i\<close> on: no sleep after the last.\<close>

lemma backoff_events_step:
  "Suc i < n \<Longrightarrow>
   butlast (concat (map (\<lambda>j. [Attempt j, Wait (d * 2 ^ j)]) [i..<n])) =
   Attempt i # Wait (d * 2 ^ i) # butlast (concat (map (\<lambda>j. [Attempt j, Wait (d * 2 ^ j)]) [Suc i..<n]))"
  by (simp add: upt_conv_Cons butlast_append)

lemma backoff_events_last:
  "butlast (concat (map (\<lambda>j. [Attempt j, Wait (d * 2 ^ j)]) [i..<Suc i])) = [Attempt i]"
  by simp

lemma withRetry_loop_fails:
  assumes "\<forall>s. isl (fst (operation s))"
  shows "i < n \<Longrightarrow> n - i = k \<Longrightarrow>
    withRetry_loop operation n d i s =
      (fst (operation (state_after operation (n - 1 - i) s)),
       state_after operation (n - i) s,
       butlast (concat (map (\<lambda>j. [Attempt j, Wait (d * 2 ^ j)]) [i..<n])))"
proof (induction k arbitrary: i s)
  case 0
  then show ?case by simp
next
  case (Suc k)
  obtain r s' where op: "operation s = (r, s')" by (cases "operation s")
  with assms obtain e where r: "r = Inl e" by (metis fst_conv isl_def)
  show ?case
  proof (cases "Suc i = n")
    case True
    then have n: "n = Suc i" by simp
    show ?thesis unfolding n using op r
      by (subst withRetry_loop.simps) (simp del: upt_Suc add: backoff_events_last)
  next
    case False
    then have lt: "Suc i < n" using Suc.prems by simp
    have k: "n - Suc i = k" using Suc.prems by simp
    have e1: "n - 1 - i = Suc (n - 1 - Suc i)" using lt by simp
    have e2: "n - i = Suc (n - Suc i)" using lt by simp
    have "withRetry_loop operation n d (Suc i) s' =
      (fst (operation (state_after operation (n - 1 - Suc i) s')),
       state_after operation (n - Suc i) s',
       butlast (concat (map (\<lambda>j. [Attempt j, Wait (d * 2 ^ j)]) [Suc i..<n])))"
      using Suc.IH [OF lt k] .
    moreover have "s' = snd (operation s)" using op by simp
    ultimately have rec: "withRetry_loop operation n d (Suc i) s' =
      (fst (operation (state_after operation (n - 1 - i) s)),
       state_after operation (n - i) s,
       butlast (concat (map (\<lambda>j. [Attempt j, Wait (d * 2 ^ j)]) [Suc i..<n])))"
      unfolding e1 e2 by simp
    have ne: "i \<noteq> n - 1" using lt by simp
    have "withRetry_loop operation n d i s =
       (case withRetry_loop operation n d (Suc i) s' of
          (r, s'', evs) \<Rightarrow> (r, s'', Attempt i # Wait (d * 2 ^ i) # evs))"
      using op r lt ne by (subst withRetry_loop.simps) simp
    then show ?thesis unfolding rec backoff_events_step [OF lt] by simp
  qed
qed

lemma backoff_events_attempts:
  "length (filter (\<lambda>e. case e of Attempt i \<Rightarrow> True | Wait w \<Rightarrow> False)
     (butlast (concat (map (\<lambda>j. [Attempt j, Wait (d * 2 ^ j)]) [i..<i + k])))) = k"
proof (induction k arbitrary: i)
  case 0
  then show ?case by simp
next
  case (Suc k)
  show ?case
  proof (cases k)
    case 0
    then show ?thesis by simp
  next
    case (Suc k')
    then have "Suc i < i + Suc k" by simp
    from backoff_events_step [OF this] Suc.IH [of "Suc i"] show ?thesis by simp
  qed
qed

lemma backoff_events_waits:
  "[w. Wait w \<leftarrow> butlast (concat (map (\<lambda>j. [Attempt j, Wait (d * 2 ^ j)]) [i..<i + k]))] =
   map (\<lambda>j. d * 2 ^ j) [i..<i + k - 1]"
proof (induction k arbitrary: i)
  case 0
  then show ?case by simp
next
  case (Suc k)
  show ?case
  proof (cases k)
    case 0
    then show ?thesis by simp
  next
    case (Suc k')
    then have lt: "Suc i < i + Suc k" by simp
    from backoff_events_step [OF this] Suc.IH [of "Suc i"] Suc show ?thesis
      by (simp add: upt_conv_Cons)
  qed
qed

text \<open>A successful first attempt is the whole call.\<close>

lemma withRetry_success:
  "operation s = (Inr v, s') \<Longrightarrow> 0 < n \<Longrightarrow> withRetry operation n d s = (Inr v, s', [Attempt 0])"
  by (simp add: withRetry_def withRetry_loop.simps)

lemma retried_success: "operation s = (Inr v, s') \<Longrightarrow> retried operation s = (Inr v, s')"
  by (simp add: retried_def withRetry_success)

text \<open>
  Claim C3. For an operation that fails on every attempt, \<open>withRetry\<close> with
  \<open>maxRetries = n\<close> and base delay \<open>d\<close> invokes the operation exactly \<open>n\<close> times, sleeps
  \<open>d * 2 ^ i\<close> after failed attempt \<open>i\<close> for every attempt but the last (delays \<open>d\<close>,
  \<open>2 d\<close>, ... between attempts), and then rejects with the error of the last attempt as
  it is. With \<open>n = 0\<close> there is no attempt, and the wrapper rejects with its own error.
\<close>

theorem withRetry_exhaustion:
  assumes "\<forall>s. isl (fst (operation s))"
  shows "withRetry operation n d s =
     ((if n = 0 then Inl RetriesExhausted
       else fst (operation (state_after operation (n - 1) s))),
      state_after operation n s,
      butlast (concat (map (\<lambda>i. [Attempt i, Wait (d * 2 ^ i)]) [0..<n])))
   \<and> length (filter (\<lambda>e. case e of Attempt i \<Rightarrow> True | Wait w \<Rightarrow> False)
        (snd (snd (withRetry operation n d s)))) = n
   \<and> [w. Wait w \<leftarrow> snd (snd (withRetry operation n d s))] = map (\<lambda>i. d * 2 ^ i) [0..<n - 1]"
proof -
  have main: "withRetry operation n d s =
     ((if n = 0 then Inl RetriesExhausted
       else fst (operation (state_after operation (n - 1) s))),
      state_after operation n s,
      butlast (concat (map (\<lambda>i. [Attempt i, Wait (d * 2 ^ i)]) [0..<n])))"
  proof (cases "n = 0")
    case True
    then show ?thesis by (simp add: withRetry_def withRetry_loop.simps)
  next
    case False
    then show ?thesis
      using withRetry_loop_fails [OF assms, of 0 n n d s] by (simp add: withRetry_def)
  qed
  show ?thesis
    unfolding main using backoff_events_attempts [of d 0 n] backoff_events_waits [of d 0 n]
    by simp
qed

theorem withRetry_exhaustion_witness:
  "(\<forall>s::nat. isl (fst ((\<lambda>s. (Inl ConnectionError :: error + unit, Suc s)) s)))
   \<and> withRetry (\<lambda>s::nat. (Inl ConnectionError :: error + unit, Suc s)) 3 1000 0 =
       (Inl ConnectionError, 3, [Attempt 0, Wait 1000, Attempt 1, Wait 2000, Attempt 2])"
proof -
  have h: "\<forall>s::nat. isl (fst ((\<lambda>s. (Inl ConnectionError :: error + unit, Suc s)) s))" by simp
  have three: "[0..<3] = [0, 1, 2]" by (simp add: upt_rec)
  show ?thesis
    using h withRetry_exhaustion [OF h, of 3 1000 0]
    by (simp add: three numeral_3_eq_3)
qed

subsection \<open>Statements on a connection without faults\<close>

lemma client_query_no_faults:
  "faults db = [] \<Longrightarrow> \<not> list_ex (\<lambda>p. CHR 0x00 \<in> set p) ps \<Longrightarrow> client_query ps stmt db = stmt db"
  by (simp add: client_query_def bind_params_def)

lemma client_query_nul:
  "faults db = [] \<Longrightarrow> list_ex (\<lambda>p. CHR 0x00 \<in> set p) ps \<Longrightarrow>
   client_query ps stmt db = (Inl InvalidByteSequence, db)"
  by (simp add: client_query_def bind_params_def)

lemma pool_connect_no_faults: "faults db = [] \<Longrightarrow> pool_connect db = (Inr (), db)"
  by (simp add: pool_connect_def)

lemma andThen_Inr: "m s = (Inr v, s') \<Longrightarrow> andThen m f s = f v s'"
  by (simp add: andThen_def)

lemma andThen_Inl: "m s = (Inl e, s') \<Longrightarrow> andThen m f s = (Inl e, s')"
  by (simp add: andThen_def)

lemma connected_no_faults:
  "faults db = [] \<Longrightarrow> andThen pool_connect (\<lambda>_. body) db = body db"
  by (simp add: andThen_def pool_connect_no_faults)



lemma retried_no_faults:
  "faults db = [] \<Longrightarrow> body db = (Inr v, db') \<Longrightarrow>
   retried (andThen pool_connect (\<lambda>_. body)) db = (Inr v, db')"
  by (rule retried_success) (simp add: connected_no_faults)

text \<open>An attempt that fails and leaves the state as it was fails three times.\<close>

lemma retried_rejected:
  assumes "operation s = (Inl e, s)"
  shows "retried operation s = (Inl e, s)"
  by (simp add: retried_def withRetry_def withRetry_loop.simps assms)

lemma retried_nul:
  assumes "faults db = []" "list_ex (\<lambda>p. CHR 0x00 \<in> set p) ps"
  shows "retried (andThen pool_connect (\<lambda>_. client_query ps stmt)) db = (Inl InvalidByteSequence, db)"
  by (rule retried_rejected) (simp add: connected_no_faults client_query_nul assms)






















subsection \<open>Deleting search history\<close>

text \<open>
  Claim C10. \<^verbatim>\<open>deleteSearchHistory\<close> with the empty string as keyword does what it does
  with the keyword omitted: the presence test is a truthiness test, so the empty string
  takes the branch that deletes every row of the user. On a connection without faults
  the result is the table without the user's rows; for a user name with the character
  NUL the statement is rejected, with either keyword, and the table stays as it is.
\<close>

theorem deleteSearchHistory_empty_keyword:
  "pg_deleteSearchHistory u (Some []) db = pg_deleteSearchHistory u None db \<and>
   (faults db = [] \<longrightarrow>
      pg_deleteSearchHistory u (Some []) db =
        (if CHR 0x00 \<in> set u then (Inl InvalidByteSequence, db)
         else (Inr (), db\<lparr>search_history := filter (\<lambda>r. sh_username r \<noteq> u) (search_history db)\<rparr>)))"
proof (intro conjI impI)
  show "pg_deleteSearchHistory u (Some []) db = pg_deleteSearchHistory u None db"
    by (simp add: pg_deleteSearchHistory_def)
  assume nf: "faults db = []"
  show "pg_deleteSearchHistory u (Some []) db =
        (if CHR 0x00 \<in> set u then (Inl InvalidByteSequence, db)
         else (Inr (), db\<lparr>search_history := filter (\<lambda>r. sh_username r \<noteq> u) (search_history db)\<rparr>))"
  proof (cases "CHR 0x00 \<in> set u")
    case True
    then show ?thesis
      unfolding pg_deleteSearchHistory_def using nf by (simp add: retried_nul)
  next
    case False
    have "retried (andThen pool_connect (\<lambda>_. client_query [u] (sql_delete_search_history u))) db =
          (Inr (), db\<lparr>search_history := filter (\<lambda>r. sh_username r \<noteq> u) (search_history db)\<rparr>)"
      using nf False
      by (intro retried_no_faults)
         (simp_all add: client_query_no_faults sql_delete_search_history_def)
    then show ?thesis using False by (simp add: pg_deleteSearchHistory_def)
  qed
qed

theorem deleteSearchHistory_empty_keyword_witness:
  "faults example_db = [] \<and>
   pg_deleteSearchHistory ''alice'' (Some []) example_db = (Inr (), example_db\<lparr>search_history := []\<rparr>) \<and>
   pg_deleteSearchHistory ''alice'' None example_db = (Inr (), example_db\<lparr>search_history := []\<rparr>)"
proof -
  have nf: "faults example_db = []" by (simp add: example_db_def)
  have f: "filter (\<lambda>r. sh_username r \<noteq> ''alice'') (search_history example_db) = []"
    by (simp add: example_db_def)
  show ?thesis
    using nf deleteSearchHistory_empty_keyword [of "''alice''" example_db] by (auto simp: f)
qed

subsection \<open>Favorites, play records, skip configurations\<close>

text \<open>A string of at most \<open>n\<close> characters is stored as it is.\<close>

lemma varchar_fits: "char_length s \<le> n \<Longrightarrow> varchar n s = Inr s"
  by (simp add: varchar_def)

text \<open>Splitting at a separator that the first piece does not contain.\<close>

lemma js_split_no_sep: "c \<notin> set xs \<Longrightarrow> js_split c xs = [xs]"
  by (induction xs) auto

lemma js_split_sep: "c \<notin> set xs \<Longrightarrow> js_split c (xs @ c # ys) = xs # js_split c ys"
  by (induction xs) auto









subsection \<open>Administrator configuration\<close>

text \<open>
  Claim C6. \<^verbatim>\<open>setAdminConfig\<close> is to replace the document atomically: after a call that
  fails partway \<^verbatim>\<open>getAdminConfig\<close> should still return the old or the new document. The
  code deletes and inserts in two statements that commit one by one. On the example
  database, whose document \<^verbatim>\<open>getAdminConfig\<close> returns, and a connection on which the
  \<^verbatim>\<open>INSERT\<close> fails in each of the three attempts, the call is rejected and
  \<^verbatim>\<open>getAdminConfig\<close> then returns no document.
\<close>

theorem setAdminConfig_not_atomic:
  "fst (pg_getAdminConfig example_db) = Inr (Some (JObj [(''SiteName'', JStr ''LunaTV'')])) \<and>
   fst (pg_setAdminConfig new_config (example_db\<lparr>faults := failing_connection\<rparr>)) = Inl ConnectionError \<and>
   fst (pg_getAdminConfig (snd (pg_setAdminConfig new_config (example_db\<lparr>faults := failing_connection\<rparr>)))) =
     Inr None"
proof -
  have a: "fst (pg_getAdminConfig example_db) = Inr (Some (JObj [(''SiteName'', JStr ''LunaTV'')]))"
    by (simp add: pg_getAdminConfig_def andThen_def retried_def withRetry_def withRetry_loop.simps
      pool_connect_def client_query_def bind_params_def example_db_def sql_select_admin_config_def)
  have b: "pg_setAdminConfig new_config (example_db\<lparr>faults := failing_connection\<rparr>) =
     (Inl ConnectionError, example_db\<lparr>admin_config := []\<rparr>)"
    by (simp add: pg_setAdminConfig_def andThen_def retried_def withRetry_def withRetry_loop.simps
      pool_connect_def client_query_def bind_params_def example_db_def sql_delete_admin_config_def
      sql_insert_admin_config_def failing_connection_def)
  have c: "fst (pg_getAdminConfig (example_db\<lparr>admin_config := []\<rparr>)) = Inr None"
    by (simp add: pg_getAdminConfig_def andThen_def retried_def withRetry_def withRetry_loop.simps
      pool_connect_def client_query_def bind_params_def example_db_def sql_select_admin_config_def)
  show ?thesis by (simp add: a b c)
qed

text \<open>
  Without faults the document that is read back is the saved one, as the column stores
  it.
\<close>

lemma setAdminConfig_then_get:
  assumes "faults db = []" "jsonb_in config = Inr doc" "doc \<noteq> JNull"
  shows "fst (pg_getAdminConfig (snd (pg_setAdminConfig config db))) = Inr (Some doc)"
proof -
  let ?db' = "db\<lparr>admin_config := [\<lparr>ac_id = admin_config_id_seq db, config_data = doc\<rparr>],
                 admin_config_id_seq := Suc (admin_config_id_seq db)\<rparr>"
  have "pg_setAdminConfig config db = (Inr (), ?db')"
    unfolding pg_setAdminConfig_def using assms(1,2)
    by (intro retried_no_faults)
       (simp_all add: andThen_def client_query_no_faults sql_delete_admin_config_def
          sql_insert_admin_config_def)
  moreover have "retried (andThen pool_connect (\<lambda>_. client_query [] sql_select_admin_config)) ?db' =
     (Inr [\<lparr>ac_id = admin_config_id_seq db, config_data = doc\<rparr>], ?db')"
    using assms(1)
    by (intro retried_no_faults) (simp_all add: client_query_no_faults sql_select_admin_config_def)
  ultimately show ?thesis using assms(3) by (simp add: pg_getAdminConfig_def andThen_def)
qed

subsection \<open>The hybrid store\<close>

lemma getFromCache_postgres: "postgres (snd (getFromCache key h)) = postgres h"
  by (simp add: getFromCache_def redis_getCache_def redis_command_def
      split: list.splits bool.splits prod.splits sum.splits option.splits)

lemma hybrid_getUserInfo_not_served:
  assumes "\<not> cache_hit (fst (getFromCache (getCacheKey ''userinfo'' [u]) h))"
  shows "fst (hybrid_getUserInfo u h) =
         map_sum id (map_option UserInfo_json) (fst (pg_getUserInfo u (postgres h)))"
proof -
  obtain c h1 where g: "getFromCache (getCacheKey ''userinfo'' [u]) h = (c, h1)"
    by (cases "getFromCache (getCacheKey ''userinfo'' [u]) h")
  have p: "postgres h1 = postgres h"
    using getFromCache_postgres [of "getCacheKey ''userinfo'' [u]" h] by (simp add: g)
  have c: "\<not> cache_hit c" using assms by (simp add: g)
  show ?thesis
    by (cases "pg_getUserInfo u (postgres h)")
       (auto simp: hybrid_getUserInfo_def g c andThen_def on_postgres_def p split: sum.splits)
qed

lemma hybrid_getAdminConfig_not_served:
  assumes "\<not> cache_hit (fst (getFromCache (getCacheKey ''admin'' [''config'']) h))"
  shows "fst (hybrid_getAdminConfig h) = fst (pg_getAdminConfig (postgres h))"
proof -
  obtain c h1 where g: "getFromCache (getCacheKey ''admin'' [''config'']) h = (c, h1)"
    by (cases "getFromCache (getCacheKey ''admin'' [''config'']) h")
  have p: "postgres h1 = postgres h"
    using getFromCache_postgres [of "getCacheKey ''admin'' [''config'']" h] by (simp add: g)
  have c: "\<not> cache_hit c" using assms by (simp add: g)
  show ?thesis
    by (cases "pg_getAdminConfig (postgres h)")
       (auto simp: hybrid_getAdminConfig_def g c andThen_def on_postgres_def p split: sum.splits)
qed

lemma hybrid_checkUserExist_not_served:
  assumes "fst (getFromCache (getCacheKey ''user_exists'' [u]) h) = None"
  shows "fst (hybrid_checkUserExist u h) = map_sum id JBool (fst (pg_checkUserExist u (postgres h)))"
proof -
  obtain h1 where g: "getFromCache (getCacheKey ''user_exists'' [u]) h = (None, h1)"
    using assms by (cases "getFromCache (getCacheKey ''user_exists'' [u]) h") simp
  have p: "postgres h1 = postgres h"
    using getFromCache_postgres [of "getCacheKey ''user_exists'' [u]" h] by (simp add: g)
  show ?thesis
    by (cases "pg_checkUserExist u (postgres h)")
       (auto simp: hybrid_checkUserExist_def g andThen_def on_postgres_def p split: sum.splits)
qed

lemma hybrid_getAllUsers_not_served:
  assumes "\<not> cache_hit (fst (getFromCache (getCacheKey ''users'' [''all'']) h))"
  shows "fst (hybrid_getAllUsers h) =
         map_sum id (\<lambda>us. JArr (map JStr us)) (fst (pg_getAllUsers (postgres h)))"
proof -
  obtain c h1 where g: "getFromCache (getCacheKey ''users'' [''all'']) h = (c, h1)"
    by (cases "getFromCache (getCacheKey ''users'' [''all'']) h")
  have p: "postgres h1 = postgres h"
    using getFromCache_postgres [of "getCacheKey ''users'' [''all'']" h] by (simp add: g)
  have c: "\<not> cache_hit c" using assms by (simp add: g)
  show ?thesis
    using c
    by (cases "pg_getAllUsers (postgres h)")
       (auto simp: hybrid_getAllUsers_def g andThen_def on_postgres_def p Let_def cache_hit_def
          split: sum.splits option.splits)
qed

lemma not_served:
  "cache_read_throws h \<or> cache_population_throws truthy key h \<Longrightarrow>
   \<not> cache_hit (fst (getFromCache key h))"
  by (auto simp: cache_read_throws_def cache_population_throws_def getFromCache_def
      redis_getCache_def redis_command_def cache_hit_def
      split: list.splits bool.splits option.splits if_splits)

lemma not_served_null:
  "cache_read_throws h \<or> cache_population_throws (\<lambda>v. v \<noteq> JNull) key h \<Longrightarrow>
   fst (getFromCache key h) = None"
  by (auto simp: cache_read_throws_def cache_population_throws_def getFromCache_def
      redis_getCache_def redis_command_def
      split: list.splits bool.splits option.splits if_splits)

text \<open>
  Claim C7. For each read of the hybrid store that goes through the cache
  (\<^verbatim>\<open>getUserInfo\<close>, \<^verbatim>\<open>getAdminConfig\<close>, \<^verbatim>\<open>checkUserExist\<close>, \<^verbatim>\<open>getAllUsers\<close>): when the
  read of the cache throws, or the read yields no value to serve and the write that
  populates the cache throws, the call returns what the relational store returns for it
  (the value, or the relational store's own error); the failure of the cache is not
  surfaced.
\<close>

theorem cache_failure_absorbed:
  "(cache_read_throws h \<or> cache_population_throws truthy (getCacheKey ''userinfo'' [u]) h \<longrightarrow>
      fst (hybrid_getUserInfo u h) =
        map_sum id (map_option UserInfo_json) (fst (pg_getUserInfo u (postgres h)))) \<and>
   (cache_read_throws h \<or> cache_population_throws truthy (getCacheKey ''admin'' [''config'']) h \<longrightarrow>
      fst (hybrid_getAdminConfig h) = fst (pg_getAdminConfig (postgres h))) \<and>
   (cache_read_throws h \<or>
    cache_population_throws (\<lambda>v. v \<noteq> JNull) (getCacheKey ''user_exists'' [u]) h \<longrightarrow>
      fst (hybrid_checkUserExist u h) =
        map_sum id JBool (fst (pg_checkUserExist u (postgres h)))) \<and>
   (cache_read_throws h \<or> cache_population_throws truthy (getCacheKey ''users'' [''all'']) h \<longrightarrow>
      fst (hybrid_getAllUsers h) =
        map_sum id (\<lambda>us. JArr (map JStr us)) (fst (pg_getAllUsers (postgres h))))"
  using not_served not_served_null hybrid_getUserInfo_not_served hybrid_getAdminConfig_not_served
    hybrid_checkUserExist_not_served hybrid_getAllUsers_not_served
  by blast

lemma example_getUserInfo:
  "fst (pg_getUserInfo ''alice'' example_db) =
     Inr (Some \<lparr>ui_email = ''alice@x.com'', ui_createdAt = 1000, ui_lastLoginAt = None\<rparr>)"
  by (simp add: pg_getUserInfo_def andThen_def retried_def withRetry_def withRetry_loop.simps
      pool_connect_def client_query_def bind_params_def example_db_def alice_def sql_select_user_def)

theorem cache_failure_absorbed_witness:
  "cache_read_throws (cache_down example_hybrid) \<and>
   fst (hybrid_getUserInfo ''alice'' (cache_down example_hybrid)) =
     Inr (Some (UserInfo_json
       \<lparr>ui_email = ''alice@x.com'', ui_createdAt = 1000, ui_lastLoginAt = None\<rparr>))"
proof -
  have t: "cache_read_throws (cache_down example_hybrid)"
    by (simp add: cache_read_throws_def cache_down_def example_hybrid_def)
  have p: "postgres (cache_down example_hybrid) = example_db"
    by (simp add: cache_down_def example_hybrid_def)
  show ?thesis
    using t cache_failure_absorbed [of "cache_down example_hybrid" "''alice''"]
    by (simp add: p example_getUserInfo)
qed


lemma setToCache_entry:
  "cacheEnabled h \<Longrightarrow> rfaults (redis h) = [] \<Longrightarrow> t \<noteq> 0 \<Longrightarrow>
   map_of (kv (redis (setToCache key v (Some t) h))) key = Some (v, Some t)"
  by (simp add: setToCache_def redis_setCache_def redis_command_def)

lemma setToCache_fields:
  "postgres (setToCache key v ttl h) = postgres h"
  "cacheEnabled (setToCache key v ttl h) = cacheEnabled h"
  by (simp_all add: setToCache_def redis_setCache_def redis_command_def
      split: list.splits bool.splits prod.splits)

lemma on_postgres_fields:
  "redis (snd (on_postgres m h)) = redis h"
  "cacheEnabled (snd (on_postgres m h)) = cacheEnabled h"
  "postgres (snd (on_postgres m h)) = snd (m (postgres h))"
  by (simp_all add: on_postgres_def split: prod.splits)

text \<open>
  Claim C1, as amended. \<^verbatim>\<open>setUserInfo\<close> and \<^verbatim>\<open>setAdminConfig\<close> of the hybrid store write
  to the relational store first. When that write fails, its error is the result and the
  cache is left as it was. When it succeeds, and the cache is enabled and its backend
  does not fail, the entry under the entity's cache key is overwritten with the new
  value (time to live 3600 s for user information, 1800 s for the configuration); it is
  not deleted.
\<close>

theorem write_then_overwrite:
  "(fst (pg_setUserInfo u info (postgres h)) = Inl e \<longrightarrow>
      hybrid_setUserInfo u info h =
        (Inl e, h\<lparr>postgres := snd (pg_setUserInfo u info (postgres h))\<rparr>)) \<and>
   (fst (pg_setUserInfo u info (postgres h)) = Inr () \<and> cacheEnabled h \<and> rfaults (redis h) = [] \<longrightarrow>
      fst (hybrid_setUserInfo u info h) = Inr () \<and>
      map_of (kv (redis (snd (hybrid_setUserInfo u info h)))) (getCacheKey ''userinfo'' [u]) =
        Some (UserInfo_json info, Some 3600)) \<and>
   (fst (pg_setAdminConfig config (postgres h)) = Inl e \<longrightarrow>
      hybrid_setAdminConfig config h =
        (Inl e, h\<lparr>postgres := snd (pg_setAdminConfig config (postgres h))\<rparr>)) \<and>
   (fst (pg_setAdminConfig config (postgres h)) = Inr () \<and> cacheEnabled h \<and> rfaults (redis h) = [] \<longrightarrow>
      fst (hybrid_setAdminConfig config h) = Inr () \<and>
      map_of (kv (redis (snd (hybrid_setAdminConfig config h)))) (getCacheKey ''admin'' [''config'']) =
        Some (config, Some 1800))"
proof (intro conjI impI)
  assume "fst (pg_setUserInfo u info (postgres h)) = Inl e"
  then show "hybrid_setUserInfo u info h =
        (Inl e, h\<lparr>postgres := snd (pg_setUserInfo u info (postgres h))\<rparr>)"
    by (cases "pg_setUserInfo u info (postgres h)")
       (simp add: hybrid_setUserInfo_def andThen_def on_postgres_def)
next
  assume "fst (pg_setAdminConfig config (postgres h)) = Inl e"
  then show "hybrid_setAdminConfig config h =
        (Inl e, h\<lparr>postgres := snd (pg_setAdminConfig config (postgres h))\<rparr>)"
    by (cases "pg_setAdminConfig config (postgres h)")
       (simp add: hybrid_setAdminConfig_def andThen_def on_postgres_def)
next
  assume a: "fst (pg_setUserInfo u info (postgres h)) = Inr () \<and> cacheEnabled h \<and> rfaults (redis h) = []"
  then obtain db where w: "pg_setUserInfo u info (postgres h) = (Inr (), db)"
    by (cases "pg_setUserInfo u info (postgres h)") simp
  have r: "hybrid_setUserInfo u info h =
       (Inr (), setToCache (getCacheKey ''userinfo'' [u]) (UserInfo_json info) (Some 3600)
                  (h\<lparr>postgres := db\<rparr>))"
    by (simp add: hybrid_setUserInfo_def andThen_def on_postgres_def w)
  show "fst (hybrid_setUserInfo u info h) = Inr ()" by (simp add: r)
  show "map_of (kv (redis (snd (hybrid_setUserInfo u info h)))) (getCacheKey ''userinfo'' [u]) =
        Some (UserInfo_json info, Some 3600)"
    using a by (simp add: r setToCache_entry)
next
  assume a: "fst (pg_setAdminConfig config (postgres h)) = Inr () \<and> cacheEnabled h \<and> rfaults (redis h) = []"
  then obtain db where w: "pg_setAdminConfig config (postgres h) = (Inr (), db)"
    by (cases "pg_setAdminConfig config (postgres h)") simp
  have r: "hybrid_setAdminConfig config h =
       (Inr (), setToCache (getCacheKey ''admin'' [''config'']) config (Some 1800)
                  (h\<lparr>postgres := db\<rparr>))"
    by (simp add: hybrid_setAdminConfig_def andThen_def on_postgres_def w)
  show "fst (hybrid_setAdminConfig config h) = Inr ()" by (simp add: r)
  show "map_of (kv (redis (snd (hybrid_setAdminConfig config h)))) (getCacheKey ''admin'' [''config'']) =
        Some (config, Some 1800)"
    using a by (simp add: r setToCache_entry)
qed

lemma example_setUserInfo:
  "fst (pg_setUserInfo ''alice'' new_info example_db) = Inr ()"
  by (simp add: pg_setUserInfo_def andThen_def retried_def withRetry_def withRetry_loop.simps
      pool_connect_def client_query_def bind_params_def example_db_def alice_def sql_update_user_email_def
      varchar_def char_length_def continuation_def new_info_def)

theorem write_then_overwrite_witness:
  "fst (hybrid_setUserInfo ''alice'' new_info example_hybrid) = Inr () \<and>
   map_of (kv (redis (snd (hybrid_setUserInfo ''alice'' new_info example_hybrid))))
     ''cache:userinfo:alice'' = Some (UserInfo_json new_info, Some 3600)"
proof -
  have a: "postgres example_hybrid = example_db" "cacheEnabled example_hybrid"
    "rfaults (redis example_hybrid) = []"
    by (simp_all add: example_hybrid_def)
  show ?thesis
    using write_then_overwrite [of "''alice''" new_info example_hybrid]
    by (simp add: a example_setUserInfo getCacheKey_def)
qed

text \<open>
  Claim C1 as stated (the cache key is deleted after the write, never updated in place)
  fails: the cache of the example store holds an entry for \<^verbatim>\<open>alice\<close>; after
  \<^verbatim>\<open>setUserInfo\<close> the key is still present and holds the new value.
\<close>

theorem setUserInfo_updates_in_place:
  "map_of (kv (redis example_hybrid)) ''cache:userinfo:alice'' =
     Some (UserInfo_json \<lparr>ui_email = ''old@x.com'', ui_createdAt = 1000, ui_lastLoginAt = None\<rparr>,
           Some 3600) \<and>
   fst (hybrid_setUserInfo ''alice'' new_info example_hybrid) = Inr () \<and>
   map_of (kv (redis (snd (hybrid_setUserInfo ''alice'' new_info example_hybrid))))
     ''cache:userinfo:alice'' = Some (UserInfo_json new_info, Some 3600) \<and>
   map_of (kv (redis (snd (hybrid_setUserInfo ''alice'' new_info example_hybrid))))
     ''cache:userinfo:alice'' \<noteq> None"
proof -
  have w: "pg_setUserInfo ''alice'' new_info example_db =
      (Inr (), example_db\<lparr>users := [alice\<lparr>email := ''new@x.com''\<rparr>]\<rparr>)"
    by (simp add: pg_setUserInfo_def andThen_def retried_def withRetry_def withRetry_loop.simps
      pool_connect_def client_query_def bind_params_def example_db_def alice_def sql_update_user_email_def
      varchar_def char_length_def continuation_def new_info_def)
  show ?thesis
    by (simp add: hybrid_setUserInfo_def andThen_def on_postgres_def example_hybrid_def w
        setToCache_def redis_setCache_def redis_command_def getCacheKey_def)
qed


lemma map_of_filter_other:
  "key \<noteq> key' \<Longrightarrow> map_of (filter (\<lambda>e. fst e \<noteq> key') xs) key = map_of xs key"
  by (induction xs) auto

lemma deleteFromCache_other:
  assumes "key \<noteq> key'" "rfaults (redis h) = []"
  shows "map_of (kv (redis (deleteFromCache key' h))) key = map_of (kv (redis h)) key"
    and "rfaults (redis (deleteFromCache key' h)) = []"
    and "cacheEnabled (deleteFromCache key' h) = cacheEnabled h"
    and "postgres (deleteFromCache key' h) = postgres h"
  using assms
  by (simp_all add: deleteFromCache_def redis_deleteCache_def redis_command_def map_of_filter_other)

lemma userinfo_key_not_deleted:
  "getCacheKey ''userinfo'' [u] \<noteq> getCacheKey ''user'' [u]"
  "getCacheKey ''userinfo'' [u] \<noteq> getCacheKey ''user_exists'' [u]"
  "getCacheKey ''userinfo'' [u] \<noteq> getCacheKey ''login'' [u]"
  "getCacheKey ''userinfo'' [u] \<noteq> getCacheKey ''users'' [''all'']"
  by (simp_all add: getCacheKey_def)

lemma pg_deleteUser_no_faults:
  assumes "faults db = []" "CHR 0x00 \<notin> set u"
  shows "pg_deleteUser u db = sql_delete_user u db"
proof -
  obtain db' where d: "sql_delete_user u db = (Inr (), db')"
    by (simp add: sql_delete_user_def)
  show ?thesis unfolding pg_deleteUser_def d
    using assms d by (intro retried_no_faults) (simp_all add: client_query_no_faults)
qed

lemma pg_getUserInfo_deleted:
  assumes "faults db = []" "CHR 0x00 \<notin> set u"
  shows "fst (pg_getUserInfo u (snd (sql_delete_user u db))) = Inr None"
proof -
  let ?db' = "snd (sql_delete_user u db)"
  have nf: "faults ?db' = []" using assms by (simp add: sql_delete_user_def)
  have "retried (andThen pool_connect (\<lambda>_. client_query [u] (sql_select_user u))) ?db' = (Inr [], ?db')"
    using nf assms(2)
    by (intro retried_no_faults)
       (simp_all add: client_query_no_faults sql_select_user_def sql_delete_user_def)
  then show ?thesis by (simp add: pg_getUserInfo_def andThen_def)
qed

text \<open>A user name with the character NUL: both statements are rejected.\<close>

lemma pg_deleteUser_nul:
  assumes "faults db = []" "CHR 0x00 \<in> set u"
  shows "pg_deleteUser u db = (Inl InvalidByteSequence, db)"
  unfolding pg_deleteUser_def using assms by (simp add: retried_nul)

lemma pg_getUserInfo_nul:
  assumes "faults db = []" "CHR 0x00 \<in> set u"
  shows "pg_getUserInfo u db = (Inl InvalidByteSequence, db)"
  using assms by (simp add: pg_getUserInfo_def andThen_def retried_nul)

text \<open>\<^verbatim>\<open>clearUserCache\<close> does delete the key of \<^verbatim>\<open>getUserInfo\<close>.\<close>

lemma clearUserCache_userinfo:
  assumes "cacheEnabled h" "rfaults (redis h) = []"
  shows "map_of (kv (redis (hybrid_clearUserCache u h))) (getCacheKey ''userinfo'' [u]) = None"
proof -
  have del: "\<not> P key \<Longrightarrow> map_of (filter (\<lambda>e. P (fst e)) xs) key = None"
    for P and key :: string and xs :: "(string \<times> json \<times> nat option) list"
    by (induction xs) auto
  have "kv (redis (hybrid_clearUserCache u h)) =
        filter (\<lambda>e. fst e \<noteq> getCacheKey ''user'' [u] \<and> fst e \<noteq> getCacheKey ''user_exists'' [u] \<and>
                    fst e \<noteq> getCacheKey ''userinfo'' [u] \<and> fst e \<noteq> getCacheKey ''login'' [u])
          (kv (redis h))"
    using assms
    by (simp add: hybrid_clearUserCache_def deleteFromCache_def redis_deleteCache_def
        redis_command_def)
  then show ?thesis
    using del [of "\<lambda>k. k \<noteq> getCacheKey ''user'' [u] \<and> k \<noteq> getCacheKey ''user_exists'' [u] \<and>
                    k \<noteq> getCacheKey ''userinfo'' [u] \<and> k \<noteq> getCacheKey ''login'' [u]"
                "getCacheKey ''userinfo'' [u]" "kv (redis h)"]
    by simp
qed

lemma on_redis_snd: "snd (on_redis m h) = h\<lparr>redis := snd (m (redis h))\<rparr>"
  by (simp add: on_redis_def split: prod.splits)

text \<open>
  Claim C8. \<^verbatim>\<open>deleteUser\<close> is to invalidate every cache key of the user, the key of
  \<^verbatim>\<open>getUserInfo\<close> among them. The list of keys it deletes lacks \<^verbatim>\<open>cache:userinfo:<name>\<close>
  (\<^verbatim>\<open>clearUserCache\<close> has it). So, when \<^verbatim>\<open>BaseRedisStorage.deleteUser\<close> leaves that key
  alone and neither backend fails: after \<^verbatim>\<open>deleteUser\<close> the relational store has no such
  user (a name with the character NUL it rejects), and \<^verbatim>\<open>getUserInfo\<close> still returns
  the value that was cached.
\<close>

theorem deleteUser_keeps_userinfo:
  assumes base: "\<forall>r. rfaults r = [] \<longrightarrow>
        rfaults (snd (base_deleteUser u r)) = [] \<and>
        map_of (kv (snd (base_deleteUser u r))) (getCacheKey ''userinfo'' [u]) =
          map_of (kv r) (getCacheKey ''userinfo'' [u])"
    and en: "cacheEnabled h" and rf: "rfaults (redis h) = []" and nf: "faults (postgres h) = []"
    and cached: "map_of (kv (redis h)) (getCacheKey ''userinfo'' [u]) = Some (v, ttl)"
    and tr: "truthy v"
  shows "fst (pg_getUserInfo u (postgres (snd (hybrid_deleteUser base_deleteUser u h)))) =
           (if CHR 0x00 \<in> set u then Inl InvalidByteSequence else Inr None) \<and>
         fst (hybrid_getUserInfo u (snd (hybrid_deleteUser base_deleteUser u h))) = Inr (Some v)"
proof (cases "CHR 0x00 \<in> set u")
  case True
  let ?key = "getCacheKey ''userinfo'' [u]"
  have run: "snd (hybrid_deleteUser base_deleteUser u h) = h"
    by (simp add: hybrid_deleteUser_def andThen_def on_postgres_def pg_deleteUser_nul [OF nf True])
  have "v \<noteq> JNull" using tr by auto
  then have hit: "getFromCache ?key h = (Some v, h)"
    using en rf cached by (simp add: getFromCache_def redis_getCache_def redis_command_def)
  have "fst (hybrid_getUserInfo u h) = Inr (Some v)"
    using tr by (simp add: hybrid_getUserInfo_def hit cache_hit_def)
  then show ?thesis
    unfolding run using True by (simp add: pg_getUserInfo_nul [OF nf True])
next
  case nul: False
  let ?key = "getCacheKey ''userinfo'' [u]"
  let ?db' = "snd (sql_delete_user u (postgres h))"
  let ?h1 = "h\<lparr>postgres := ?db'\<rparr>"
  let ?h2 = "deleteFromCache (getCacheKey ''user'' [u]) ?h1"
  let ?h3 = "deleteFromCache (getCacheKey ''user_exists'' [u]) ?h2"
  let ?h4 = "deleteFromCache (getCacheKey ''login'' [u]) ?h3"
  let ?h5 = "deleteFromCache (getCacheKey ''users'' [''all'']) ?h4"
  let ?h6 = "snd (on_redis (base_deleteUser u) ?h5)"
  have del: "pg_deleteUser u (postgres h) = (Inr (), ?db')"
    by (simp add: pg_deleteUser_no_faults [OF nf nul] sql_delete_user_def)
  have run: "snd (hybrid_deleteUser base_deleteUser u h) = ?h6"
    by (simp add: hybrid_deleteUser_def andThen_def on_postgres_def del)
  have h1: "rfaults (redis ?h1) = []" "map_of (kv (redis ?h1)) ?key = Some (v, ttl)"
    "cacheEnabled ?h1" "postgres ?h1 = ?db'"
    using rf cached en by simp_all
  have h2: "rfaults (redis ?h2) = []" "map_of (kv (redis ?h2)) ?key = Some (v, ttl)"
    "cacheEnabled ?h2" "postgres ?h2 = ?db'"
    using deleteFromCache_other [OF userinfo_key_not_deleted(1) h1(1)] h1 by simp_all
  have h3: "rfaults (redis ?h3) = []" "map_of (kv (redis ?h3)) ?key = Some (v, ttl)"
    "cacheEnabled ?h3" "postgres ?h3 = ?db'"
    using deleteFromCache_other [OF userinfo_key_not_deleted(2) h2(1)] h2 by simp_all
  have h4: "rfaults (redis ?h4) = []" "map_of (kv (redis ?h4)) ?key = Some (v, ttl)"
    "cacheEnabled ?h4" "postgres ?h4 = ?db'"
    using deleteFromCache_other [OF userinfo_key_not_deleted(3) h3(1)] h3 by simp_all
  have h5: "rfaults (redis ?h5) = []" "map_of (kv (redis ?h5)) ?key = Some (v, ttl)"
    "cacheEnabled ?h5" "postgres ?h5 = ?db'"
    using deleteFromCache_other [OF userinfo_key_not_deleted(4) h4(1)] h4 by simp_all
  have h6: "rfaults (redis ?h6) = []" "map_of (kv (redis ?h6)) ?key = Some (v, ttl)"
    "cacheEnabled ?h6" "postgres ?h6 = ?db'"
    using base [rule_format, OF h5(1)] h5 unfolding on_redis_snd by simp_all
  have "v \<noteq> JNull" using tr by auto
  then have hit: "getFromCache ?key ?h6 = (Some v, ?h6)"
    using h6 by (simp add: getFromCache_def redis_getCache_def redis_command_def)
  have "fst (hybrid_getUserInfo u ?h6) = Inr (Some v)"
    using tr by (simp add: hybrid_getUserInfo_def hit cache_hit_def)
  moreover have "fst (pg_getUserInfo u (postgres ?h6)) = Inr None"
    unfolding h6(4) by (rule pg_getUserInfo_deleted [OF nf nul])
  ultimately show ?thesis unfolding run using nul by simp
qed

lemma example_base_deleteUser_keeps:
  "\<forall>r. rfaults r = [] \<longrightarrow>
        rfaults (snd (example_base_deleteUser ''alice'' r)) = [] \<and>
        map_of (kv (snd (example_base_deleteUser ''alice'' r))) (getCacheKey ''userinfo'' [''alice'']) =
          map_of (kv r) (getCacheKey ''userinfo'' [''alice''])"
proof -
  have "map_of (filter (\<lambda>e. \<not> prefix ''u:alice:'' (fst e)) xs) ''cache:userinfo:alice'' =
        map_of xs ''cache:userinfo:alice''" for xs :: "(string \<times> json \<times> nat option) list"
    by (induction xs) auto
  then show ?thesis
    by (simp add: example_base_deleteUser_def redis_command_def getCacheKey_def)
qed

theorem deleteUser_keeps_userinfo_witness:
  "fst (pg_getUserInfo ''alice''
     (postgres (snd (hybrid_deleteUser example_base_deleteUser ''alice'' example_hybrid)))) = Inr None \<and>
   fst (hybrid_getUserInfo ''alice''
     (snd (hybrid_deleteUser example_base_deleteUser ''alice'' example_hybrid))) =
     Inr (Some (UserInfo_json
       \<lparr>ui_email = ''old@x.com'', ui_createdAt = 1000, ui_lastLoginAt = None\<rparr>))"
proof -
  have a: "cacheEnabled example_hybrid" "rfaults (redis example_hybrid) = []"
    "faults (postgres example_hybrid) = []"
    "map_of (kv (redis example_hybrid)) (getCacheKey ''userinfo'' [''alice'']) =
       Some (UserInfo_json \<lparr>ui_email = ''old@x.com'', ui_createdAt = 1000, ui_lastLoginAt = None\<rparr>,
             Some 3600)"
    "truthy (UserInfo_json \<lparr>ui_email = ''old@x.com'', ui_createdAt = 1000, ui_lastLoginAt = None\<rparr>)"
    by (simp_all add: example_hybrid_def example_db_def getCacheKey_def UserInfo_json_def)
  show ?thesis
    using deleteUser_keeps_userinfo [of example_base_deleteUser "''alice''" example_hybrid,
        OF example_base_deleteUser_keeps a] by simp
qed

subsection \<open>Credentials\<close>

text \<open>The digest of the one-block message \<^verbatim>\<open>abc\<close> of FIPS 180-4, by evaluation.\<close>

lemma sha512_test_vector:
  "toHex (sha512 (utf8 ''abc'')) =
   ''ddaf35a193617abacc417349ae20413112e6fa4e89a97ea20a9eeee64b55d39a2192992a274fc1a836ba3c23a3feebbd454d4423643ce80e2a9ac94fa54ca49f''"
  by code_simp

lemma length_be64: "length (be64 w) = 8"
  by (simp add: be64_def)

lemma length_sha512: "length (sha512 msg) = 64"
proof -
  obtain a b c d e f g h where
    "foldl sha512_compress sha512_H0 (sha512_blocks (sha512_pad msg)) = (a, b, c, d, e, f, g, h)"
    by (metis prod_cases3)
  then show ?thesis by (simp add: sha512_def length_be64)
qed

lemma length_hmac_sha512: "length (hmac_sha512 k msg) = 64"
  by (simp add: hmac_sha512_def length_sha512)

lemma length_pbkdf2_xor: "length acc = 64 \<Longrightarrow> length (pbkdf2_xor p n u acc) = 64"
  by (induction n arbitrary: u acc) (simp_all add: length_hmac_sha512)

lemma length_pbkdf2_block: "length (pbkdf2_block p s c i) = 64"
  by (simp add: pbkdf2_block_def Let_def length_pbkdf2_xor length_hmac_sha512)

lemma length_concat_blocks:
  "length (concat (map (pbkdf2_block p s c) is)) = 64 * length is"
  by (induction "is") (simp_all add: length_pbkdf2_block)

lemma length_pbkdf2: "length (pbkdf2_hmac_sha512 p s c n) = n"
proof -
  have "n \<le> 64 * ((n + 63) div 64)" by presburger
  then show ?thesis by (simp add: pbkdf2_hmac_sha512_def length_concat_blocks)
qed

lemma less_16_cases:
  "n < 16 \<Longrightarrow> n \<in> {0, 1, 2, 3, 4, 5, 6, 7, 8, 9, 10, 11, 12, 13, 14, 15::nat}"
  by simp arith

lemma hex_value_digit: "n < 16 \<Longrightarrow> hex_value (hex_digit n) = Some n"
  by (drule less_16_cases) (auto simp: hex_value_def hex_digit_def)

lemma hex_digit_not_dollar: "n < 16 \<Longrightarrow> hex_digit n \<noteq> CHR ''$''"
  by (drule less_16_cases) (auto simp: hex_digit_def)

lemma byte_nibbles: "unat (b :: byte) div 16 < 16" "unat b mod 16 < 16"
proof -
  have "unat b < 256" using unsigned_less [of b] by simp
  then show "unat b div 16 < 16" by simp
  show "unat b mod 16 < 16" by simp
qed

lemma length_toHex: "length (toHex bs) = 2 * length bs"
  by (induction bs) (simp_all add: toHex_def)

lemma toHex_no_dollar: "CHR ''$'' \<notin> set (toHex bs)"
  by (induction bs) (simp_all add: toHex_def hex_digit_not_dollar [THEN not_sym] byte_nibbles)

lemma toHex_Cons:
  "toHex (b # bs) = hex_digit (unat b div 16) # hex_digit (unat b mod 16) # toHex bs"
  by (simp add: toHex_def)

lemma fromHex_toHex: "fromHex (toHex bs) = bs"
proof (induction bs)
  case Nil
  then show ?case by (simp add: toHex_def)
next
  case (Cons b bs)
  have "(of_nat (16 * (unat b div 16) + unat b mod 16) :: byte) = b"
    by (simp add: mult.commute [of 16])
  then show ?case
    by (simp add: toHex_Cons hex_value_digit byte_nibbles Cons.IH)
qed

lemma dec_string_iterations: "dec_string 100000 = ''100000''"
  by (simp add: dec_string.simps hex_digit_def)

lemma parseInt_iterations: "parseInt ''100000'' = Some 100000"
  by (simp add: parseInt_def skip_white.simps white_space_def digit_in_def hex_value_def
      digits_value_def)

text \<open>Hexadecimal text is ASCII: its length in code units is its number of bytes.\<close>

lemma hex_digit_ascii: "n < 16 \<Longrightarrow> (of_char (hex_digit n) :: nat) < 128"
  by (drule less_16_cases) (auto simp: hex_digit_def)

lemma js_length_ascii: "\<forall>c \<in> set s. (of_char c :: nat) < 128 \<Longrightarrow> js_length s = length s"
  by (induction s) (auto simp: js_length_def char_length_def continuation_def)

lemma js_length_toHex: "js_length (toHex bs) = 2 * length bs"
proof -
  have "\<forall>c \<in> set (toHex bs). (of_char c :: nat) < 128"
    by (induction bs) (simp_all add: toHex_def hex_digit_ascii byte_nibbles)
  then show ?thesis by (simp add: js_length_ascii length_toHex)
qed


lemma hashPassword_result:
  "hashPassword rnd password =
     Inr (''pbkdf2$100000$'' @ toHex rnd @ ''$'' @
          toHex (pbkdf2_hmac_sha512 (utf8 password) (utf8 (toHex rnd)) 100000 64))"
  by (simp add: hashPassword_def crypto_pbkdf2_def dec_string_iterations Let_def)

lemma split_hash:
  "js_split CHR ''$'' (''pbkdf2$100000$'' @ toHex salt @ ''$'' @ toHex key) =
     [''pbkdf2'', ''100000'', toHex salt, toHex key]"
proof -
  have "js_split CHR ''$'' (toHex salt @ CHR ''$'' # toHex key) = [toHex salt, toHex key]"
    by (simp add: js_split_sep toHex_no_dollar js_split_no_sep)
  then show ?thesis by simp
qed

lemma verifyPassword_hash:
  "verifyPassword p2 (''pbkdf2$100000$'' @ toHex rnd @ ''$'' @
       toHex (pbkdf2_hmac_sha512 (utf8 password) (utf8 (toHex rnd)) 100000 64)) =
   Some (Inr (pbkdf2_hmac_sha512 (utf8 p2) (utf8 (toHex rnd)) 100000 64 =
        pbkdf2_hmac_sha512 (utf8 password) (utf8 (toHex rnd)) 100000 64))"
proof -
  have p: "prefix ''pbkdf2$'' (''pbkdf2$100000$'' @ toHex rnd @ ''$'' @
       toHex (pbkdf2_hmac_sha512 (utf8 password) (utf8 (toHex rnd)) 100000 64))"
    by simp
  show ?thesis
    unfolding verifyPassword_def if_P [OF p] split_hash
    by (simp add: js_length_toHex length_toHex length_pbkdf2 parseInt_iterations crypto_pbkdf2_def
        fromHex_toHex)
qed

text \<open>
  Claim C4, as amended. For every password and every salt: \<^verbatim>\<open>hashPassword\<close> returns
  \<^verbatim>\<open>pbkdf2$100000$<salt-hex>$<derived-key-hex>\<close>, the salt printed with two hexadecimal
  digits per byte and the key the 64 bytes that PBKDF2 with HMAC-SHA-512 and 100000
  iterations derives; \<^verbatim>\<open>verifyPassword\<close> of the password against this hash is true; and
  \<^verbatim>\<open>verifyPassword\<close> of any password \<open>p2\<close> against it is true exactly when \<open>p2\<close> derives
  the same key under the stored salt.
\<close>

theorem password_roundtrip:
  "hashPassword rnd password =
     Inr (''pbkdf2$100000$'' @ toHex rnd @ ''$'' @
          toHex (pbkdf2_hmac_sha512 (utf8 password) (utf8 (toHex rnd)) 100000 64)) \<and>
   length (toHex rnd) = 2 * length rnd \<and>
   length (pbkdf2_hmac_sha512 (utf8 password) (utf8 (toHex rnd)) 100000 64) = 64 \<and>
   verifyPassword password
     (''pbkdf2$100000$'' @ toHex rnd @ ''$'' @
      toHex (pbkdf2_hmac_sha512 (utf8 password) (utf8 (toHex rnd)) 100000 64)) = Some (Inr True) \<and>
   verifyPassword p2
     (''pbkdf2$100000$'' @ toHex rnd @ ''$'' @
      toHex (pbkdf2_hmac_sha512 (utf8 password) (utf8 (toHex rnd)) 100000 64)) =
     Some (Inr (pbkdf2_hmac_sha512 (utf8 p2) (utf8 (toHex rnd)) 100000 64 =
          pbkdf2_hmac_sha512 (utf8 password) (utf8 (toHex rnd)) 100000 64))"
proof (intro conjI)
  show "hashPassword rnd password =
     Inr (''pbkdf2$100000$'' @ toHex rnd @ ''$'' @
          toHex (pbkdf2_hmac_sha512 (utf8 password) (utf8 (toHex rnd)) 100000 64))"
    by (rule hashPassword_result)
  show "length (toHex rnd) = 2 * length rnd" by (rule length_toHex)
  show "length (pbkdf2_hmac_sha512 (utf8 password) (utf8 (toHex rnd)) 100000 64) = 64"
    by (rule length_pbkdf2)
  show "verifyPassword password
     (''pbkdf2$100000$'' @ toHex rnd @ ''$'' @
      toHex (pbkdf2_hmac_sha512 (utf8 password) (utf8 (toHex rnd)) 100000 64)) = Some (Inr True)"
    by (simp only: verifyPassword_hash simp_thms)
  show "verifyPassword p2
     (''pbkdf2$100000$'' @ toHex rnd @ ''$'' @
      toHex (pbkdf2_hmac_sha512 (utf8 password) (utf8 (toHex rnd)) 100000 64)) =
     Some (Inr (pbkdf2_hmac_sha512 (utf8 p2) (utf8 (toHex rnd)) 100000 64 =
          pbkdf2_hmac_sha512 (utf8 password) (utf8 (toHex rnd)) 100000 64))"
    by (rule verifyPassword_hash)
qed

lemma hmac_key_block_nul:
  assumes "length k < 128"
  shows "hmac_key_block (k @ [0]) = hmac_key_block k"
proof -
  have "replicate (128 - length k) (0 :: byte) = 0 # replicate (128 - Suc (length k)) 0"
    using assms by (cases "128 - length k") simp_all
  then show ?thesis using assms by (simp add: hmac_key_block_def)
qed

lemma hmac_sha512_key: "hmac_key_block k = hmac_key_block k' \<Longrightarrow> hmac_sha512 k = hmac_sha512 k'"
  by (rule ext) (simp add: hmac_sha512_def)

lemma pbkdf2_xor_key: "hmac_sha512 k = hmac_sha512 k' \<Longrightarrow> pbkdf2_xor k n u acc = pbkdf2_xor k' n u acc"
  by (induction n arbitrary: u acc) simp_all

lemma pbkdf2_key:
  assumes "hmac_key_block k = hmac_key_block k'"
  shows "pbkdf2_hmac_sha512 k s c n = pbkdf2_hmac_sha512 k' s c n"
proof -
  have h: "hmac_sha512 k = hmac_sha512 k'" using assms by (rule hmac_sha512_key)
  have "pbkdf2_block k s c = pbkdf2_block k' s c"
    by (rule ext) (simp add: pbkdf2_block_def h pbkdf2_xor_key [OF h])
  then show ?thesis by (simp add: pbkdf2_hmac_sha512_def)
qed

text \<open>
  Claim C4 as stated (every other password is rejected) fails: HMAC fills a short key up
  with zero bytes, so a password followed by a NUL character derives the same key. The
  hash of \<^verbatim>\<open>pw123456\<close> (with the salt of 32 zero bytes) verifies the different password
  \<^verbatim>\<open>pw123456\0\<close>.
\<close>

theorem other_password_verifies:
  "''pw123456'' @ [CHR 0x00] \<noteq> ''pw123456'' \<and>
   hashPassword (replicate 32 0) ''pw123456'' =
     Inr (''pbkdf2$100000$'' @ toHex (replicate 32 0) @ ''$'' @
          toHex (pbkdf2_hmac_sha512 (utf8 ''pw123456'') (utf8 (toHex (replicate 32 0))) 100000 64)) \<and>
   verifyPassword (''pw123456'' @ [CHR 0x00])
     (''pbkdf2$100000$'' @ toHex (replicate 32 0) @ ''$'' @
      toHex (pbkdf2_hmac_sha512 (utf8 ''pw123456'') (utf8 (toHex (replicate 32 0))) 100000 64)) = Some (Inr True)"
proof -
  have "utf8 (''pw123456'' @ [CHR 0x00]) = utf8 ''pw123456'' @ [0]" by (simp add: utf8_def)
  moreover have "length (utf8 ''pw123456'') < 128" by (simp add: utf8_def)
  ultimately have "hmac_key_block (utf8 (''pw123456'' @ [CHR 0x00])) = hmac_key_block (utf8 ''pw123456'')"
    by (simp only: hmac_key_block_nul)
  then have "pbkdf2_hmac_sha512 (utf8 (''pw123456'' @ [CHR 0x00])) (utf8 (toHex (replicate 32 0))) 100000 64 =
             pbkdf2_hmac_sha512 (utf8 ''pw123456'') (utf8 (toHex (replicate 32 0))) 100000 64"
    by (rule pbkdf2_key)
  then have "verifyPassword (''pw123456'' @ [CHR 0x00])
     (''pbkdf2$100000$'' @ toHex (replicate 32 0) @ ''$'' @
      toHex (pbkdf2_hmac_sha512 (utf8 ''pw123456'') (utf8 (toHex (replicate 32 0))) 100000 64)) = Some (Inr True)"
    by (simp only: verifyPassword_hash simp_thms)
  moreover have "''pw123456'' @ [CHR 0x00] \<noteq> ''pw123456''" by simp
  ultimately show ?thesis using hashPassword_result [of "replicate 32 0" "''pw123456''"] by blast
qed

text \<open>
  Claim C9. A stored value that does not begin with \<^verbatim>\<open>pbkdf2$\<close> is compared as a
  plaintext password: \<^verbatim>\<open>verifyPassword\<close> returns true exactly when the password equals
  the stored value.
\<close>

theorem legacy_plaintext:
  "\<not> prefix ''pbkdf2$'' stored \<Longrightarrow> verifyPassword password stored = Some (Inr (stored = password))"
  by (simp add: verifyPassword_def)

theorem legacy_plaintext_witness:
  "\<not> prefix ''pbkdf2$'' ''secret'' \<and>
   verifyPassword ''secret'' ''secret'' = Some (Inr True) \<and>
   verifyPassword ''Secret'' ''secret'' = Some (Inr False)"
proof -
  have h: "\<not> prefix ''pbkdf2$'' ''secret''" by simp
  show ?thesis
    using h legacy_plaintext [OF h, of "''secret''"] legacy_plaintext [OF h, of "''Secret''"]
    by simp
qed

end
